theory Spec2Isabelle
  imports Complex_Main "HOL-Library.Sublist"
begin

section \<open>Strings and numbers of the host language\<close>

text \<open>
  A JavaScript string is modelled as a \<^typ>\<open>string\<close>, a list of code units; the model
  covers the code units below 256. Of those, \<^verbatim>\<open>String.prototype.trim\<close> removes
  TAB, LF, VT, FF, CR, SPACE and NBSP at both ends.
\<close>

definition isWhiteSpace :: "char \<Rightarrow> bool" where
  "isWhiteSpace c \<longleftrightarrow>
     c = CHR 0x09 \<or> c = CHR 0x0A \<or> c = CHR 0x0B \<or> c = CHR 0x0C \<or> c = CHR 0x0D \<or>
     c = CHR 0x20 \<or> c = CHR 0xA0"

definition trim :: "string \<Rightarrow> string" where
  "trim s = rev (dropWhile isWhiteSpace (rev (dropWhile isWhiteSpace s)))"

text \<open>The right half of \<^const>\<open>trim\<close>, \<^verbatim>\<open>String.prototype.trimEnd\<close>.\<close>

definition trimEnd :: "string \<Rightarrow> string" where
  "trimEnd s = rev (dropWhile isWhiteSpace (rev s))"

text \<open>\<^verbatim>\<open>Array.prototype.join\<close> on an array of strings.\<close>

fun join :: "string \<Rightarrow> string list \<Rightarrow> string" where
  "join sep [] = []"
| "join sep [x] = x"
| "join sep (x # y # ys) = x @ sep @ join sep (y # ys)"

text \<open>
  Numbers. A JavaScript number is a binary64 floating-point value. The finite ones are
  rationals, and the model computes with exact rationals and rounds where the program
  does: \<open>round_double\<close> takes a rational to the nearest binary64 value, ties to the even
  significand (53 bits of significand, and the unit \<open>2 powi (- 1074)\<close> of the subnormal
  range). The quotient of a finite number by 60 and the successor of a finite number are
  finite, so overflow to \<^verbatim>\<open>Infinity\<close> does not arise. \<open>ilog2 x\<close> is the exponent \<open>e\<close>
  with \<open>2 powi e \<le> x < 2 powi (e + 1)\<close>, found from the bit lengths of numerator and
  denominator.
\<close>

function bits :: "int \<Rightarrow> int" where
  "bits n = (if n \<le> 0 then 0 else 1 + bits (n div 2))"
  by pat_completeness auto
termination
  by (relation "measure nat") auto

declare bits.simps [simp del]

definition ilog2 :: "rat \<Rightarrow> int" where
  "ilog2 x =
     (let e = bits (fst (quotient_of x)) - bits (snd (quotient_of x))
      in if 2 powi e \<le> x then e else e - 1)"

definition round_even :: "rat \<Rightarrow> int" where
  "round_even r =
     (let f = \<lfloor>r\<rfloor>; d = r - of_int f
      in if d < 1 / 2 then f else if 1 / 2 < d then f + 1
         else if even f then f else f + 1)"

definition round_double :: "rat \<Rightarrow> rat" where
  "round_double x =
     (if x = 0 then 0
      else (let u = 2 powi max (ilog2 \<bar>x\<bar> - 52) (- 1074)
            in of_int (round_even (x / u)) * u))"

text \<open>A rational is a binary64 value when rounding leaves it as it is.\<close>

definition is_double :: "rat \<Rightarrow> bool" where
  "is_double x \<longleftrightarrow> round_double x = x"

text \<open>
  \<^verbatim>\<open>a + b\<close> and \<^verbatim>\<open>a / b\<close> are the exact results, rounded. \<^verbatim>\<open>a % b\<close> is the remainder
  of the truncated division, with the sign of the dividend; it is a binary64 value as it
  is, with no rounding.
\<close>

definition js_add :: "rat \<Rightarrow> rat \<Rightarrow> rat" where
  "js_add a b = round_double (a + b)"

definition js_div :: "rat \<Rightarrow> rat \<Rightarrow> rat" where
  "js_div a b = round_double (a / b)"

definition js_rem :: "rat \<Rightarrow> rat \<Rightarrow> rat" where
  "js_rem a b = a - b * of_int (if 0 \<le> a / b then \<lfloor>a / b\<rfloor> else \<lceil>a / b\<rceil>)"

text \<open>
  \<^verbatim>\<open>String(x)\<close> of an integer-valued number \<open>x\<close>, after \<^verbatim>\<open>Number::toString\<close> of ECMA-262.
  The digits printed are those of the integer with the fewest significant digits that
  still rounds to \<open>x\<close>; when several have that few, the one nearest to \<open>x\<close>, and of two
  equally near the one whose last significant digit is even. \<open>shortest x j\<close> looks for
  that integer among the multiples of \<open>10 ^ j\<close>, \<open>10 ^ (j - 1)\<close>, ..., 1: the values that round
  to \<open>x\<close> form an interval around \<open>x\<close>, so a multiple of \<open>10 ^ j\<close> rounds to \<open>x\<close> only if
  one of the two next to \<open>x\<close> does. An integer of up to 21 digits is printed in full, a
  longer one in exponent notation. \<open>digits\<close> is the decimal numeral of a natural number.
\<close>

function digits :: "int \<Rightarrow> string" where
  "digits n =
     (if n < 10 then [''0123456789'' ! nat n]
      else digits (n div 10) @ [''0123456789'' ! nat (n mod 10)])"
  by pat_completeness auto
termination
  by (relation "measure nat") auto

declare digits.simps [simp del]

definition rounds_to :: "int \<Rightarrow> int \<Rightarrow> bool" where
  "rounds_to y x \<longleftrightarrow> round_double (of_int y) = of_int x"

fun shortest :: "int \<Rightarrow> nat \<Rightarrow> int" where
  "shortest x 0 = x"
| "shortest x (Suc j) =
     (let p = 10 ^ Suc j; lo = (x div p) * p; hi = lo + p;
          ok_lo = (0 < lo \<and> rounds_to lo x); ok_hi = rounds_to hi x
      in if ok_lo \<and> ok_hi
         then (if x - lo < hi - x then lo else if hi - x < x - lo then hi
               else if even (lo div p) then lo else hi)
         else if ok_lo then lo else if ok_hi then hi else shortest x j)"

definition toString_pos :: "int \<Rightarrow> string" where
  "toString_pos x =
     (let ds = digits (shortest x (length (digits x))); n = length ds
      in if n \<le> 21 then ds
         else (case rev (dropWhile (\<lambda>c. c = CHR ''0'') (rev ds)) of
                 [] \<Rightarrow> []
               | d # ds' \<Rightarrow> d # (if ds' = [] then [] else CHR ''.'' # ds')) @
              ''e+'' @ digits (int n - 1))"

definition Number_toString :: "int \<Rightarrow> string" where
  "Number_toString x =
     (if x = 0 then ''0''
      else if x < 0 then CHR ''-'' # toString_pos (- x)
      else toString_pos x)"

definition padStart :: "nat \<Rightarrow> char \<Rightarrow> string \<Rightarrow> string" where
  "padStart n c s = replicate (n - length s) c @ s"

text \<open>The number a decimal numeral stands for.\<close>

definition decimal_value :: "string \<Rightarrow> nat" where
  "decimal_value s = foldl (\<lambda>v c. 10 * v + (of_char c - 48)) 0 s"

text \<open>
  An optional string field is \<^typ>\<open>string option\<close>: \<open>None\<close> is \<^verbatim>\<open>null\<close> or
  \<^verbatim>\<open>undefined\<close>. Such a value is truthy when it is a non-empty string.
\<close>

definition truthy :: "string option \<Rightarrow> bool" where
  "truthy v = (case v of None \<Rightarrow> False | Some s \<Rightarrow> s \<noteq> [])"

section \<open>The data\<close>

text \<open>
  The meeting note is the object the GraphQL query of line 228 returns. A caption has a
  speaker id, a sentence and a start time; its \<^verbatim>\<open>index\<close> and \<^verbatim>\<open>endTime\<close> are not
  read by the formatter. The elements of \<^verbatim>\<open>captions\<close> and \<^verbatim>\<open>attendees\<close> are objects,
  a sentence is a string and a speaker id an integer. \<^verbatim>\<open>speakerMeta\<close> is an object
  from keys to names. A field that is \<^verbatim>\<open>null\<close> or missing is \<open>None\<close>.
\<close>

record caption =
  speaker_id :: int
  sentence :: string
  time :: rat

record attendee =
  displayName :: "string option"
  name :: "string option"
  email :: "string option"

record meetingNote =
  captions :: "caption list option"
  speakerMeta :: "(string \<rightharpoonup> string) option"
  title :: "string option"
  date :: "string option"
  attendees :: "attendee list option"

section \<open>formatTime\<close>

text \<open>
  Lines 117-121. The quotient is rounded to binary64, the remainder is not;
  \<^verbatim>\<open>Math.floor\<close> is the floor of the value, and \<^verbatim>\<open>String\<close> prints it.
\<close>

definition formatTime :: "rat \<Rightarrow> string" where
  "formatTime totalSeconds =
     (let minutes = \<lfloor>js_div totalSeconds 60\<rfloor>;
          seconds = \<lfloor>js_rem totalSeconds 60\<rfloor>
      in padStart 2 (CHR ''0'') (Number_toString minutes) @ '':'' @
         padStart 2 (CHR ''0'') (Number_toString seconds))"

text \<open>The characters a printed number and a time stamp are made of.\<close>

definition digit_chars :: "char set" where
  "digit_chars = set ''0123456789''"

definition number_chars :: "char set" where
  "number_chars =
     insert CHR ''-'' (insert CHR ''.'' (insert CHR ''e'' (insert CHR ''+'' digit_chars)))"

definition stamp_chars :: "char set" where
  "stamp_chars = insert CHR '':'' number_chars"

section \<open>formatTranscript\<close>

text \<open>
  Lines 177-178: the name of a caption's speaker, looked up under the one-based key. The
  sum \<^verbatim>\<open>currentSpeakerId + 1\<close> is taken in binary64; it is an integer, which the floor
  reads off. \<^verbatim>\<open>toString\<close> and the template literal print it in the same way.
\<close>

definition speakerName :: "(string \<rightharpoonup> string) \<Rightarrow> int \<Rightarrow> string" where
  "speakerName meta currentSpeakerId =
     (let speakerNameKey = Number_toString \<lfloor>js_add (of_int currentSpeakerId) 1\<rfloor>
      in if truthy (meta speakerNameKey) then the (meta speakerNameKey)
         else ''Unknown Speaker '' @
              Number_toString \<lfloor>js_add (of_int currentSpeakerId) 1\<rfloor>)"

text \<open>Lines 131-137: the title, and the date after it.\<close>

definition header_title :: "meetingNote \<Rightarrow> string" where
  "header_title note =
     (if truthy (title note)
      then (if truthy (date note) then the (title note) @ '' | '' @ the (date note)
            else the (title note))
      else [])"

text \<open>Lines 139-146: the meeting URL, cut at its first question mark.\<close>

definition header_url :: "string option \<Rightarrow> string \<Rightarrow> string" where
  "header_url meetingUrl header =
     (if truthy meetingUrl
      then (let cleanUrl = takeWhile (\<lambda>c. c \<noteq> CHR ''?'') (the meetingUrl)
            in if header \<noteq> [] then header @ ''\<newline>'' @ cleanUrl else cleanUrl)
      else header)"

text \<open>Lines 149-160: the line of one attendee, \<open>None\<close> for \<^verbatim>\<open>null\<close>.\<close>

definition attendee_line :: "attendee \<Rightarrow> string option" where
  "attendee_line a =
     (let nm = (if truthy (displayName a) then displayName a else name a);
          em = email a
      in if truthy nm \<and> truthy em then Some (the nm @ '' '' @ the em)
         else if truthy nm then nm
         else if truthy em then em
         else None)"

text \<open>Lines 148-169: the attendee block.\<close>

definition header_attendees :: "attendee list option \<Rightarrow> string \<Rightarrow> string" where
  "header_attendees atts header =
     (case atts of
        None \<Rightarrow> header
      | Some as \<Rightarrow>
          if 0 < length as
          then (let attendeesList =
                      join ''\<newline>'' (map the (filter truthy (map attendee_line as)))
                in if attendeesList \<noteq> []
                   then (if header \<noteq> [] then header @ ''\<newline>\<newline>'' @ attendeesList
                         else attendeesList)
                   else header)
          else header)"

definition header_of :: "meetingNote \<Rightarrow> string option \<Rightarrow> string" where
  "header_of note meetingUrl =
     header_attendees (attendees note) (header_url meetingUrl (header_title note))"

text \<open>Lines 171-200: the loop over the captions, on its three variables.\<close>

record loop_state =
  body :: string
  lastSpeakerId :: "int option"
  currentSpeakerTextAccumulator :: string

definition loop_init :: loop_state where
  "loop_init = \<lparr>body = [], lastSpeakerId = None, currentSpeakerTextAccumulator = []\<rparr>"

text \<open>Lines 182-184 and 202-204: the accumulated text, trimmed, ends its line.\<close>

definition flush :: "string \<Rightarrow> string \<Rightarrow> string" where
  "flush b acc = (if acc \<noteq> [] then b @ trim acc @ ''\<newline>'' else b)"

text \<open>Lines 182-192: the branch taken when the speaker is not the last one.\<close>

definition speaker_change :: "(string \<rightharpoonup> string) \<Rightarrow> loop_state \<Rightarrow> caption \<Rightarrow> loop_state" where
  "speaker_change meta st c =
     (let b = flush (body st) (currentSpeakerTextAccumulator st);
          b = (if b \<noteq> [] then b @ ''\<newline>'' else b);
          b = b @ formatTime (time c) @ ''\<newline>'';
          b = b @ speakerName meta (speaker_id c) @ ''\<newline>''
      in \<lparr>body = b, lastSpeakerId = Some (speaker_id c), currentSpeakerTextAccumulator = []\<rparr>)"

text \<open>Lines 195-199.\<close>

definition accumulate :: "string \<Rightarrow> string \<Rightarrow> string" where
  "accumulate acc s = (if acc = [] then s else acc @ '' '' @ s)"

text \<open>Lines 176-199: one round of the loop.\<close>

definition caption_step :: "(string \<rightharpoonup> string) \<Rightarrow> loop_state \<Rightarrow> caption \<Rightarrow> loop_state" where
  "caption_step meta st c =
     (let st1 = (if Some (speaker_id c) \<noteq> lastSpeakerId st then speaker_change meta st c else st)
      in st1\<lparr>currentSpeakerTextAccumulator :=
               accumulate (currentSpeakerTextAccumulator st1) (sentence c)\<rparr>)"

fun caption_loop :: "(string \<rightharpoonup> string) \<Rightarrow> loop_state \<Rightarrow> caption list \<Rightarrow> loop_state" where
  "caption_loop meta st [] = st"
| "caption_loop meta st (c # cs) = caption_loop meta (caption_step meta st c) cs"

text \<open>The variable \<^verbatim>\<open>body\<close> at line 205, after the last flush.\<close>

definition body_of :: "(string \<rightharpoonup> string) \<Rightarrow> caption list \<Rightarrow> string" where
  "body_of meta cs =
     (let st = caption_loop meta loop_init cs
      in flush (body st) (currentSpeakerTextAccumulator st))"

text \<open>Lines 123-211: the guard, the header, the loop and the final join.\<close>

definition missing_data :: string where
  "missing_data = ''Error: Could not format transcript due to missing data.''"

definition formatTranscript :: "meetingNote option \<Rightarrow> string option \<Rightarrow> string" where
  "formatTranscript meetingNote meetingUrl =
     (case meetingNote of
        None \<Rightarrow> missing_data
      | Some note \<Rightarrow>
          (case captions note of
             None \<Rightarrow> missing_data
           | Some cs \<Rightarrow>
               (case speakerMeta note of
                  None \<Rightarrow> missing_data
                | Some meta \<Rightarrow>
                    (let header = header_of note meetingUrl;
                         b = body_of meta cs
                     in if header \<noteq> [] then trim (header @ ''\<newline>\<newline>'' @ trim b)
                        else trim b))))"

section \<open>Speaker runs, as the specification words them\<close>

text \<open>
  These three definitions are not taken from the source: they follow the words of the
  specification, for comparison with the loop. A speaker run is a maximal run of
  consecutive captions with one speaker id; \<open>spec_runs\<close> cuts a caption sequence into
  its runs, in order. The block of a run is its header (the time stamp of its first
  caption on a line, the speaker's name on a line) and one line with the sentences of the
  run joined by single spaces and trimmed; a run whose sentences are all empty has no
  such line. The body is the blocks, with a blank line between them.
\<close>

function spec_runs :: "caption list \<Rightarrow> caption list list" where
  "spec_runs [] = []"
| "spec_runs (c # cs) =
     (c # takeWhile (\<lambda>d. speaker_id d = speaker_id c) cs) #
     spec_runs (dropWhile (\<lambda>d. speaker_id d = speaker_id c) cs)"
  by pat_completeness auto
termination
  by (relation "measure length") (auto simp add: length_dropWhile_le less_Suc_eq_le)

fun spec_block :: "(string \<rightharpoonup> string) \<Rightarrow> caption list \<Rightarrow> string" where
  "spec_block meta [] = []"
| "spec_block meta (c # cs) =
     formatTime (time c) @ ''\<newline>'' @ speakerName meta (speaker_id c) @ ''\<newline>'' @
     (if list_all (\<lambda>d. sentence d = []) (c # cs) then []
      else trim (join '' '' (map sentence (c # cs))) @ ''\<newline>'')"

definition spec_body :: "(string \<rightharpoonup> string) \<Rightarrow> caption list \<Rightarrow> string" where
  "spec_body meta cs = join ''\<newline>'' (map (spec_block meta) (spec_runs cs))"

section \<open>Rounding to binary64\<close>

text \<open>
  \<open>ilog2\<close> is the binary exponent. Rounding moves a number by half a unit at most, so an
  integer below \<open>2 ^ 53\<close> is a binary64 value and a number from \<open>2 ^ 53\<close> on stays there.
\<close>

lemma bits_pos: "0 < n \<Longrightarrow> 0 < bits n"
proof -
  assume "0 < n"
  moreover have "0 \<le> bits m" for m
    by (induction m rule: bits.induct) (subst bits.simps, simp)
  ultimately show ?thesis
    by (subst bits.simps) (simp add: add_pos_nonneg)
qed

lemma bits_bounds:
  "0 < n \<Longrightarrow> 2 ^ nat (bits n - 1) \<le> n \<and> n < 2 ^ nat (bits n)"
proof (induction n rule: bits.induct)
  case (1 n)
  show ?case
  proof (cases "n = 1")
    case True
    have "bits 1 = 1" by code_simp
    with True show ?thesis by simp
  next
    case False
    with "1.prems" have m: "0 < n div 2" by simp
    have b: "bits n = 1 + bits (n div 2)"
      using "1.prems" by (subst bits.simps) simp
    have bm: "0 < bits (n div 2)" using m by (rule bits_pos)
    from "1.IH" "1.prems" m
    have ih: "2 ^ nat (bits (n div 2) - 1) \<le> n div 2" "n div 2 < 2 ^ nat (bits (n div 2))"
      by simp_all
    have s: "nat (bits (n div 2)) = Suc (nat (bits (n div 2) - 1))"
      using bm by simp
    have "2 ^ nat (bits n - 1) = (2::int) * 2 ^ nat (bits (n div 2) - 1)"
      using s by (simp add: b)
    also have "\<dots> \<le> 2 * (n div 2)" using ih(1) by simp
    also have "\<dots> \<le> n" by simp
    finally have lo: "2 ^ nat (bits n - 1) \<le> n" .
    have "n < 2 * (n div 2 + 1)" by simp
    also have "\<dots> \<le> 2 * 2 ^ nat (bits (n div 2))" using ih(2) by simp
    also have "\<dots> = 2 ^ nat (bits n)"
      using bm by (simp add: b nat_add_distrib)
    finally show ?thesis using lo by simp
  qed
qed

lemma bits_bounds_rat:
  assumes "0 < n"
  shows "(2::rat) powi (bits n - 1) \<le> of_int n" and "of_int n < (2::rat) powi (bits n)"
proof -
  have b: "0 < bits n" using assms by (rule bits_pos)
  from bits_bounds [OF assms]
  have 1: "2 ^ nat (bits n - 1) \<le> n" and 2: "n < 2 ^ nat (bits n)" by simp_all
  have "(of_int (2 ^ nat (bits n - 1)) :: rat) \<le> of_int n"
    using 1 by (simp only: of_int_le_iff)
  then show "(2::rat) powi (bits n - 1) \<le> of_int n"
    using b by (simp add: power_int_def)
  have "(of_int n :: rat) < of_int (2 ^ nat (bits n))"
    using 2 by (simp only: of_int_less_iff)
  then show "of_int n < (2::rat) powi (bits n)"
    using b by (simp add: power_int_def)
qed

lemma ilog2_bounds:
  assumes "0 < x"
  shows "2 powi ilog2 x \<le> x" and "x < 2 powi (ilog2 x + 1)"
proof -
  obtain p q where pq: "quotient_of x = (p, q)" by (cases "quotient_of x")
  then have q: "0 < q" by (rule quotient_of_denom_pos)
  have x: "x = of_int p / of_int q" using pq by (rule quotient_of_div)
  have p: "0 < p"
  proof (rule ccontr)
    assume "\<not> 0 < p"
    then have "(of_int p :: rat) \<le> 0" by simp
    then have "x \<le> 0" using q by (simp add: x divide_nonpos_pos)
    with assms show False by simp
  qed
  define e where "e = bits p - bits q"
  have pb: "(2::rat) powi (bits p - 1) \<le> of_int p" "of_int p < (2::rat) powi (bits p)"
    using bits_bounds_rat [OF p] by simp_all
  have qb: "(2::rat) powi (bits q - 1) \<le> of_int q" "of_int q < (2::rat) powi (bits q)"
    using bits_bounds_rat [OF q] by simp_all
  have qpos: "(0::rat) < of_int q" using q by simp
  have ppos: "(0::rat) < of_int p" using p by simp
  have up: "x < (2::rat) powi (e + 1)"
  proof -
    have "x * (2::rat) powi (bits q - 1) \<le> x * of_int q"
      using qb(1) assms by (intro mult_left_mono) simp_all
    also have "\<dots> = of_int p" using qpos by (simp add: x)
    also have "\<dots> < 2 powi (bits p)" by (rule pb(2))
    also have "\<dots> = 2 powi (e + 1) * 2 powi (bits q - 1)"
      by (simp add: e_def flip: power_int_add)
    finally show ?thesis by simp
  qed
  have lo: "(2::rat) powi (e - 1) < x"
  proof -
    have "(2::rat) powi (e - 1) * of_int q < 2 powi (e - 1) * 2 powi (bits q)"
      using qb(2) by (intro mult_strict_left_mono) simp_all
    also have "\<dots> = 2 powi (bits p - 1)"
      by (simp add: e_def flip: power_int_add)
    also have "\<dots> \<le> of_int p" by (rule pb(1))
    also have "\<dots> = x * of_int q" using qpos by (simp add: x)
    finally show ?thesis using qpos by simp
  qed
  have il: "ilog2 x = (if 2 powi e \<le> x then e else e - 1)"
    by (simp add: ilog2_def pq e_def Let_def)
  show "2 powi ilog2 x \<le> x"
    using lo by (simp add: il)
  show "x < 2 powi (ilog2 x + 1)"
    using up by (auto simp add: il not_le)
qed

lemma ilog2_less:
  assumes "0 < x" "x < 2 powi n"
  shows "ilog2 x < n"
proof (rule ccontr)
  assume "\<not> ilog2 x < n"
  then have "n \<le> ilog2 x" by simp
  then have "(2::rat) powi n \<le> 2 powi ilog2 x"
    by (intro power_int_increasing) simp_all
  also have "\<dots> \<le> x" using assms(1) by (rule ilog2_bounds)
  finally show False using assms(2) by simp
qed

lemma ilog2_ge:
  assumes "0 < x" "2 powi n \<le> x"
  shows "n \<le> ilog2 x"
proof (rule ccontr)
  assume "\<not> n \<le> ilog2 x"
  then have "ilog2 x + 1 \<le> n" by simp
  then have "(2::rat) powi (ilog2 x + 1) \<le> 2 powi n"
    by (intro power_int_increasing) simp_all
  moreover have "x < 2 powi (ilog2 x + 1)" using assms(1) by (rule ilog2_bounds)
  ultimately show False using assms(2) by simp
qed

lemma round_even_error: "\<bar>of_int (round_even r) - r\<bar> \<le> 1 / 2"
proof -
  have "of_int \<lfloor>r\<rfloor> \<le> r" "r < of_int \<lfloor>r\<rfloor> + 1"
    using floor_correct [of r] by simp_all
  then show ?thesis
    by (auto simp add: round_even_def Let_def abs_le_iff)
qed

lemma round_even_of_int [simp]: "round_even (of_int n) = n"
  by (simp add: round_even_def)

lemma round_even_ge: "of_int n \<le> r \<Longrightarrow> n \<le> round_even r"
proof -
  assume "of_int n \<le> r"
  then have "n \<le> \<lfloor>r\<rfloor>" by (simp add: le_floor_iff)
  then show ?thesis by (auto simp add: round_even_def Let_def)
qed

lemma round_even_less: "r < of_int n - 1 / 2 \<Longrightarrow> round_even r < n"
proof -
  assume a: "r < of_int n - 1 / 2"
  have e: "\<bar>of_int (round_even r) - r\<bar> \<le> 1 / 2" by (rule round_even_error)
  then have "of_int (round_even r) \<le> r + 1 / 2" by linarith
  with a have "(of_int (round_even r) :: rat) < of_int n" by simp
  then show ?thesis by (simp only: of_int_less_iff)
qed

lemma round_double_unit:
  assumes "x \<noteq> 0"
  shows "round_double x = of_int (round_even (x / 2 powi max (ilog2 \<bar>x\<bar> - 52) (- 1074))) *
                2 powi max (ilog2 \<bar>x\<bar> - 52) (- 1074)"
  using assms by (simp add: round_double_def Let_def)

lemma round_double_of_int_exact:
  assumes "0 < n" "n < 2 ^ 53"
  shows "round_double (of_int n) = of_int n"
proof -
  let ?x = "of_int n :: rat"
  define q where "q = max (ilog2 \<bar>?x\<bar> - 52) (- 1074)"
  have pos: "0 < ?x" using assms(1) by simp
  have "?x < 2 powi 53" using assms(2) by simp
  then have "ilog2 ?x < 53" using pos by (intro ilog2_less)
  then have q: "q \<le> 0" using pos by (simp add: q_def)
  have "?x / 2 powi q = ?x * 2 powi (- q)"
    by (simp add: power_int_minus divide_inverse)
  also have "\<dots> = of_int (n * 2 ^ nat (- q))"
    using q by (simp add: power_int_def)
  finally have "round_even (?x / 2 powi q) = n * 2 ^ nat (- q)"
    by (simp only: round_even_of_int)
  then have "of_int (round_even (?x / 2 powi q)) * 2 powi q = ?x * (2 powi (- q) * 2 powi q)"
    using q by (simp add: power_int_def)
  also have "\<dots> = ?x"
    by (simp flip: power_int_add)
  finally show ?thesis
    using pos by (simp add: round_double_unit q_def)
qed

lemma round_double_large:
  assumes "2 ^ 53 \<le> x"
  shows "2 ^ 53 \<le> round_double x"
proof -
  define e where "e = ilog2 \<bar>x\<bar>"
  have pos: "0 < x" using assms by (rule less_le_trans [rotated]) simp
  have ax: "\<bar>x\<bar> = x" using pos by simp
  have "2 powi 53 \<le> x" using assms by simp
  then have e: "53 \<le> e" unfolding e_def ax using pos by (intro ilog2_ge)
  then have q: "max (e - 52) (- 1074) = e - 52" by simp
  have lo: "2 powi e \<le> x" unfolding e_def ax using pos by (rule ilog2_bounds)
  define u where "u = (2::rat) powi (e - 52)"
  define r where "r = round_even (x / u)"
  have u: "0 < u" by (simp add: u_def)
  have eu: "(2::rat) powi e = 2 ^ 52 * u"
    by (simp add: u_def power_int_diff)
  have "(of_int (2 ^ 52) :: rat) = 2 powi e / u"
    using u by (simp add: eu)
  also have "\<dots> \<le> x / u"
    using lo u by (intro divide_right_mono) simp_all
  finally have "2 ^ 52 \<le> r"
    unfolding r_def by (rule round_even_ge)
  then have "(of_int (2 ^ 52) :: rat) \<le> of_int r"
    by (simp only: of_int_le_iff)
  then have r: "(2 ^ 52 :: rat) \<le> of_int r" by simp
  have "(2 ^ 53 :: rat) = 2 powi 53" by simp
  also have "\<dots> \<le> 2 powi e"
    using e by (intro power_int_increasing) simp_all
  also have "\<dots> = 2 ^ 52 * u" by (rule eu)
  also have "\<dots> \<le> of_int r * u"
    using r u by (intro mult_right_mono) simp_all
  finally have "(2 ^ 53 :: rat) \<le> of_int r * u" .
  moreover have "round_double x = of_int r * u"
    using pos q by (simp add: round_double_unit e_def ax r_def u_def)
  ultimately show ?thesis by simp
qed

section \<open>Printing a number\<close>

text \<open>
  Below \<open>2 ^ 53\<close> no shorter integer rounds to \<open>x\<close>, and \<^verbatim>\<open>String(x)\<close> is the decimal
  numeral of \<open>x\<close>, which reads back as \<open>x\<close>.
\<close>

lemma rounds_to_safe:
  assumes "0 < x" "x < 2 ^ 53" "0 < y" "rounds_to y x"
  shows "y = x"
proof (cases "y < 2 ^ 53")
  case True
  then have "round_double (of_int y) = of_int y" using assms(3) by (intro round_double_of_int_exact)
  with assms(4) have "(of_int y :: rat) = of_int x" by (simp add: rounds_to_def)
  then show ?thesis by simp
next
  case False
  then have "(2 ^ 53 :: rat) \<le> of_int y" 
    by (metis linorder_not_less of_int_le_iff of_int_numeral of_int_power)
  then have "2 ^ 53 \<le> round_double (of_int y)" by (rule round_double_large)
  with assms(4) have "(2 ^ 53 :: rat) \<le> of_int x" by (simp add: rounds_to_def)
  then have "2 ^ 53 \<le> x"
    by (metis of_int_le_iff of_int_numeral of_int_power)
  with assms(2) show ?thesis by simp
qed

lemma shortest_safe:
  assumes "0 < x" "x < 2 ^ 53"
  shows "shortest x j = x"
proof (induction j)
  case 0
  show ?case by simp
next
  case (Suc j)
  let ?p = "10 ^ Suc j :: int"
  let ?lo = "(x div ?p) * ?p"
  let ?hi = "?lo + ?p"
  have lo: "?lo = x" if "0 < ?lo" "rounds_to ?lo x"
    using assms that by (rule rounds_to_safe)
  have "0 \<le> ?lo" using assms(1) by (simp add: pos_imp_zdiv_nonneg_iff)
  then have "0 < ?hi" by (simp add: add_nonneg_pos)
  then have hi: "?hi = x" if "rounds_to ?hi x"
    using assms that by (intro rounds_to_safe)
  show ?case
    using lo hi Suc.IH by (simp add: Let_def del: power_Suc)
qed

lemma digit_mem: "k < 10 \<Longrightarrow> ''0123456789'' ! k \<in> digit_chars"
  unfolding digit_chars_def by (rule nth_mem) simp

lemma digits_small: "n < 10 \<Longrightarrow> digits n = [''0123456789'' ! nat n]"
  by (subst digits.simps) (simp only: if_True)

lemma digits_large:
  "\<not> n < 10 \<Longrightarrow> digits n = digits (n div 10) @ [''0123456789'' ! nat (n mod 10)]"
  by (subst digits.simps) (simp only: if_False)

lemma digits_chars: "set (digits n) \<subseteq> digit_chars"
proof (induction n rule: digits.induct)
  case (1 n)
  show ?case
  proof (cases "n < 10")
    case True
    then have "nat n < 10" by simp
    then have "''0123456789'' ! nat n \<in> digit_chars" by (rule digit_mem)
    then show ?thesis
      by (simp only: digits_small [OF True] list.set) blast
  next
    case False
    have "nat (n mod 10) < 10" by simp
    then have "''0123456789'' ! nat (n mod 10) \<in> digit_chars" by (rule digit_mem)
    moreover have "set (digits (n div 10)) \<subseteq> digit_chars"
      using False by (rule 1)
    ultimately show ?thesis
      by (simp only: digits_large [OF False] set_append list.set) blast
  qed
qed

lemma digits_not_Nil: "digits n \<noteq> []"
proof (cases "n < 10")
  case True
  show ?thesis by (simp only: digits_small [OF True] list.distinct not_False_eq_True)
next
  case False
  show ?thesis
    by (simp only: digits_large [OF False] append_is_Nil_conv list.distinct simp_thms
        not_False_eq_True)
qed

lemma digits_length: "0 < k \<Longrightarrow> n < 10 ^ k \<Longrightarrow> length (digits n) \<le> k"
proof (induction n arbitrary: k rule: digits.induct)
  case (1 n)
  show ?case
  proof (cases "n < 10")
    case True
    then have "length (digits n) = 1" by (simp only: digits_small list.size)
    with "1.prems"(1) show ?thesis by simp
  next
    case False
    obtain k' where k: "k = Suc k'" using "1.prems"(1) by (cases k) auto
    have k': "0 < k'"
    proof (rule ccontr)
      assume "\<not> 0 < k'"
      then have "k = 1" using k by simp
      with "1.prems"(2) False show False by simp
    qed
    have "n < 10 * 10 ^ k'"
      using "1.prems"(2) by (simp add: k)
    then have "n div 10 < 10 ^ k'"
      by arith
    then have "length (digits (n div 10)) \<le> k'"
      using False k' by (intro "1.IH")
    then show ?thesis
      by (simp add: digits_large [OF False] k)
  qed
qed

lemma digit_value:
  assumes "k < 10"
  shows "of_char (''0123456789'' ! k) = (48 + k :: nat)"
proof -
  have "\<forall>k\<in>set [0..<10]. of_char (''0123456789'' ! k) = (48 + k :: nat)"
    by code_simp
  moreover have "k \<in> set [0..<10]"
    using assms by simp
  ultimately show ?thesis
    by (rule bspec)
qed

lemma decimal_value_snoc: "decimal_value (s @ [c]) = 10 * decimal_value s + (of_char c - 48)"
  by (simp add: decimal_value_def)

lemma decimal_value_digits: "0 \<le> n \<Longrightarrow> decimal_value (digits n) = nat n"
proof (induction n rule: digits.induct)
  case (1 n)
  show ?case
  proof (cases "n < 10")
    case True
    have k: "nat n < 10" using True by simp
    have "decimal_value (digits n) = of_char (''0123456789'' ! nat n) - 48"
      by (simp only: digits_small [OF True] decimal_value_def foldl.simps mult_zero_right add_0)
    then show ?thesis
      using digit_value [OF k] by (simp only: add_diff_cancel_left')
  next
    case False
    have m: "nat (n mod 10) < 10" by simp
    have d: "0 \<le> n div 10" using "1.prems" by simp
    have "decimal_value (digits n) =
            10 * decimal_value (digits (n div 10)) +
            (of_char (''0123456789'' ! nat (n mod 10)) - 48)"
      by (simp only: digits_large [OF False] decimal_value_snoc)
    also have "\<dots> = 10 * nat (n div 10) + (48 + nat (n mod 10) - 48)"
      using "1.IH" [OF False d] digit_value [OF m] by (simp only:)
    also have "\<dots> = nat n"
      using "1.prems" by (simp add: nat_div_distrib nat_mod_distrib)
    finally show ?thesis .
  qed
qed

lemma Number_toString_safe:
  assumes "0 \<le> x" "x < 2 ^ 53"
  shows "Number_toString x = digits x"
proof (cases "x = 0")
  case True
  have "digits 0 = ''0''" by code_simp
  with True show ?thesis by (simp add: Number_toString_def)
next
  case False
  with assms(1) have pos: "0 < x" by simp
  have s: "shortest x j = x" for j
    using pos assms(2) by (rule shortest_safe)
  have "x < 10 ^ 16" using assms(2) by simp
  then have "length (digits x) \<le> 16" by (intro digits_length) simp
  then show ?thesis
    using pos by (simp add: Number_toString_def toString_pos_def s Let_def)
qed

lemma Number_toString_safe_neg:
  assumes "x < 0" "- (2 ^ 53) < x"
  shows "Number_toString x = CHR ''-'' # digits (- x)"
proof -
  have s: "shortest (- x) j = - x" for j
    using assms by (intro shortest_safe) simp_all
  have "- x < 10 ^ 16" using assms(2) by simp
  then have "length (digits (- x)) \<le> 16" by (intro digits_length) simp
  then show ?thesis
    using assms(1) by (simp add: Number_toString_def toString_pos_def s Let_def)
qed

lemma round_double_nonneg:
  assumes "0 \<le> x"
  shows "0 \<le> round_double x"
proof (cases "x = 0")
  case True
  then show ?thesis by (simp add: round_double_def)
next
  case False
  define u :: rat where "u = 2 powi max (ilog2 \<bar>x\<bar> - 52) (- 1074)"
  have u: "0 < u" by (simp add: u_def)
  have "of_int 0 \<le> x / u" using assms u by simp
  then have "0 \<le> round_even (x / u)" by (rule round_even_ge)
  then have "0 \<le> of_int (round_even (x / u)) * u" using u by simp
  then show ?thesis using False by (simp add: round_double_def Let_def u_def)
qed

section \<open>Quotients and sums below \<open>2 ^ 53\<close>\<close>

text \<open>
  For a binary64 time \<open>t\<close> below \<open>2 ^ 53\<close> the rounded quotient \<open>t / 60\<close> has the floor of
  the exact one: \<open>60 * (k + 1) - t\<close> is a multiple of the unit of \<open>t\<close>, too far from 0 for
  the rounding to reach \<open>k + 1\<close>.
\<close>

lemma round_double_0 [simp]: "round_double 0 = 0"
  by (simp add: round_double_def)

lemma round_double_ge_int:
  assumes "0 < x" "ilog2 x \<le> 52" "of_int k \<le> x"
  shows "of_int k \<le> round_double x"
proof -
  define q where "q = max (ilog2 \<bar>x\<bar> - 52) (- 1074)"
  define u where "u = (2::rat) powi q"
  define N where "N = (2::int) ^ nat (- q)"
  have ax: "\<bar>x\<bar> = x" using assms(1) by simp
  have q: "q \<le> 0" using assms(2) by (simp add: q_def ax)
  have u: "0 < u" by (simp add: u_def)
  have Nu: "of_int N * u = 1"
    using q by (simp add: N_def u_def power_int_def field_simps)
  have "of_int (k * N) = of_int k * (of_int N * u) / u"
    using u by simp
  also have "\<dots> = of_int k / u" by (simp add: Nu)
  also have "\<dots> \<le> x / u" using assms(3) u by (intro divide_right_mono) simp_all
  finally have "k * N \<le> round_even (x / u)" by (rule round_even_ge)
  then have "(of_int (k * N) :: rat) \<le> of_int (round_even (x / u))"
    by (simp only: of_int_le_iff)
  then have le: "of_int (k * N) * u \<le> of_int (round_even (x / u)) * u"
    using u by (intro mult_right_mono) simp_all
  have "of_int k = of_int k * (of_int N * u)" by (simp only: Nu mult_1_right)
  also have "\<dots> = of_int (k * N) * u" by (simp add: mult.assoc)
  also have "\<dots> \<le> of_int (round_even (x / u)) * u" by (rule le)
  also have "\<dots> = round_double x"
    using assms(1) by (simp add: round_double_unit u_def q_def)
  finally show ?thesis .
qed

lemma round_double_less_int:
  assumes "0 < x" "ilog2 x \<le> 52"
    and "x + 2 powi max (ilog2 x - 52) (- 1074) / 2 < of_int K"
  shows "round_double x < of_int K"
proof -
  define q where "q = max (ilog2 \<bar>x\<bar> - 52) (- 1074)"
  define u where "u = (2::rat) powi q"
  define N where "N = (2::int) ^ nat (- q)"
  have ax: "\<bar>x\<bar> = x" using assms(1) by simp
  have q: "q \<le> 0" using assms(2) by (simp add: q_def ax)
  have u: "0 < u" by (simp add: u_def)
  have Nu: "of_int N * u = 1"
    using q by (simp add: N_def u_def power_int_def field_simps)
  have gap: "x + u / 2 < of_int K"
    using assms(3) by (simp add: u_def q_def ax)
  have "x / u + 1 / 2 = (x + u / 2) / u"
    using u by (simp add: field_simps)
  also have "\<dots> < of_int K / u"
    using gap u by (intro divide_strict_right_mono) simp_all
  also have "\<dots> = of_int K * (of_int N * u) / u" by (simp add: Nu)
  also have "\<dots> = of_int (K * N)" using u by simp
  finally have "x / u < of_int (K * N) - 1 / 2" by simp
  then have "round_even (x / u) < K * N" by (rule round_even_less)
  then have "(of_int (round_even (x / u)) :: rat) < of_int (K * N)"
    by (simp only: of_int_less_iff)
  then have lt: "of_int (round_even (x / u)) * u < of_int (K * N) * u"
    using u by (intro mult_strict_right_mono) simp_all
  have "round_double x = of_int (round_even (x / u)) * u"
    using assms(1) by (simp add: round_double_unit u_def q_def)
  also have "\<dots> < of_int (K * N) * u" by (rule lt)
  also have "\<dots> = of_int K * (of_int N * u)" by (simp add: mult.assoc)
  also have "\<dots> = of_int K" by (simp only: Nu mult_1_right)
  finally show ?thesis .
qed

lemma js_div_60_floor:
  assumes "is_double t" "0 \<le> t" "t < 2 ^ 53"
  shows "\<lfloor>js_div t 60\<rfloor> = \<lfloor>t / 60\<rfloor>"
proof (cases "t = 0")
  case True
  then show ?thesis by (simp add: js_div_def)
next
  case False
  with assms(2) have t: "0 < t" by simp
  define x where "x = t / 60"
  define k where "k = \<lfloor>x\<rfloor>"
  define K where "K = k + 1"
  have x: "0 < x" using t by (simp add: x_def)
  have kx: "of_int k \<le> x" by (simp add: k_def)
  have xK: "x < of_int K" unfolding K_def k_def by linarith
  have k0: "0 \<le> k" using x by (simp add: k_def)
  have "x < 2 powi 48" using assms(3) by (simp add: x_def)
  then have ex48: "ilog2 x < 48" using x by (intro ilog2_less)
  then have ex: "ilog2 x \<le> 52" by simp
  have lower: "of_int k \<le> round_double x"
    using x ex kx by (rule round_double_ge_int)
  define ux where "ux = (2::rat) powi max (ilog2 x - 52) (- 1074)"
  have gap: "x + ux / 2 < of_int K"
  proof (cases "t < 1")
    case True
    have "ux \<le> 2 powi 0"
      unfolding ux_def using ex by (intro power_int_increasing) simp_all
    then have "ux \<le> 1" by simp
    moreover have "x < 1 / 60" using True by (simp add: x_def)
    moreover have "(1::rat) \<le> of_int K" using k0 by (simp add: K_def)
    ultimately show ?thesis by linarith
  next
    case False
    then have t1: "1 \<le> t" by simp
    define et where "et = ilog2 t"
    define ut where "ut = (2::rat) powi (et - 52)"
    define Nt where "Nt = (2::int) ^ nat (52 - et)"
    define m where "m = round_even (t / ut)"
    have "2 powi 0 \<le> t" using t1 by simp
    then have et0: "0 \<le> et" unfolding et_def using t by (intro ilog2_ge)
    have "t < 2 powi 53" using assms(3) by simp
    then have "et < 53" unfolding et_def using t by (intro ilog2_less)
    then have et52: "et \<le> 52" by simp
    have qt: "max (ilog2 t - 52) (- 1074) = et - 52"
      using et0 by (simp add: et_def)
    have ut: "0 < ut" by (simp add: ut_def)
    have Nu: "of_int Nt * ut = 1"
      using et52 by (simp add: Nt_def ut_def power_int_def field_simps)
    have "round_double t = of_int m * ut"
      using t by (simp add: round_double_unit qt m_def ut_def)
    then have tm: "t = of_int m * ut"
      using assms(1) by (simp add: is_double_def)
    have "t < 60 * of_int K" using xK by (simp add: x_def)
    then have "of_int m * ut < of_int (60 * K * Nt) * ut"
      using Nu by (simp add: tm mult.assoc)
    then have "(of_int m :: rat) < of_int (60 * K * Nt)"
      using ut by (simp only: mult_less_cancel_right_pos)
    then have "m < 60 * K * Nt" by (simp only: of_int_less_iff)
    then have "m + 1 \<le> 60 * K * Nt" by simp
    then have "(of_int (m + 1) :: rat) \<le> of_int (60 * K * Nt)"
      by (simp only: of_int_le_iff)
    then have "of_int (m + 1) * ut \<le> of_int (60 * K * Nt) * ut"
      using ut by (intro mult_right_mono) simp_all
    also have "\<dots> = 60 * of_int K * (of_int Nt * ut)" by (simp add: mult.assoc)
    also have "\<dots> = 60 * of_int K" by (simp only: Nu mult_1_right)
    finally have "t + ut \<le> 60 * of_int K" by (simp add: tm algebra_simps)
    then have room: "x + ut / 60 \<le> of_int K" by (simp add: x_def)
    have "2 powi (- 6) \<le> x" using t1 by (simp add: x_def)
    then have ex6: "- 6 \<le> ilog2 x" using x by (intro ilog2_ge)
    have "t < 2 powi (et + 1)" unfolding et_def using t by (rule ilog2_bounds)
    then have "x < 2 powi (et + 1) / 60" by (simp add: x_def)
    also have "\<dots> \<le> 2 powi (et + 1) / 32"
      by (intro divide_left_mono) simp_all
    also have "\<dots> = 2 powi (et - 4)"
      by (simp add: power_int_diff power_int_add)
    finally have "ilog2 x < et - 4" using x by (intro ilog2_less)
    then have "ilog2 x - 52 \<le> et - 52 - 5" by simp
    then have "(2::rat) powi (ilog2 x - 52) \<le> 2 powi (et - 52 - 5)"
      by (intro power_int_increasing) simp_all
    also have "\<dots> = ut / 32"
      by (simp add: ut_def power_int_diff)
    finally have "ux \<le> ut / 32"
      using ex6 by (simp add: ux_def)
    then have "ux / 2 < ut / 60" using ut by simp
    with room show ?thesis by linarith
  qed
  have upper: "round_double x < of_int K"
    using x ex gap unfolding ux_def by (rule round_double_less_int)
  have "\<lfloor>round_double x\<rfloor> = k"
    using lower upper by (intro floor_unique) (simp_all add: K_def)
  then show ?thesis
    by (simp add: js_div_def x_def k_def)
qed

lemma is_double_of_int:
  assumes "0 \<le> n" "n < 2 ^ 53"
  shows "is_double (of_int n)"
proof (cases "n = 0")
  case True
  then show ?thesis by (simp add: is_double_def)
next
  case False
  with assms(1) have "0 < n" by simp
  then show ?thesis
    using assms(2) by (simp add: is_double_def round_double_of_int_exact)
qed

lemma js_add_1_safe:
  assumes "0 \<le> i" "i + 1 < 2 ^ 53"
  shows "\<lfloor>js_add (of_int i) 1\<rfloor> = i + 1"
proof -
  have "0 < i + 1" using assms(1) by simp
  then have "round_double (of_int (i + 1)) = of_int (i + 1)"
    using assms(2) by (rule round_double_of_int_exact)
  then have "js_add (of_int i) 1 = of_int (i + 1)"
    by (simp add: js_add_def)
  then show ?thesis by (simp only: floor_of_int)
qed

section \<open>The characters of a printed number\<close>

lemma digits_has_digit: "\<exists>c\<in>set (digits n). c \<in> digit_chars"
proof -
  obtain c where "c \<in> set (digits n)"
    using digits_not_Nil [of n] by (cases "digits n") auto
  then show ?thesis using digits_chars by blast
qed

lemma digit_chars_number: "digit_chars \<subseteq> number_chars"
  by (auto simp add: number_chars_def)

lemma toString_pos_chars: "set (toString_pos x) \<subseteq> number_chars"
proof -
  define ds where "ds = digits (shortest x (length (digits x)))"
  define sig where "sig = rev (dropWhile (\<lambda>c. c = CHR ''0'') (rev ds))"
  have ds: "set ds \<subseteq> number_chars"
    unfolding ds_def using digits_chars digit_chars_number by blast
  have "set sig \<subseteq> set ds"
    unfolding sig_def using set_dropWhileD by fastforce
  then have sig: "set sig \<subseteq> number_chars" using ds by blast
  have ex: "set (digits (int (length ds) - 1)) \<subseteq> number_chars"
    using digits_chars digit_chars_number by blast
  have m: "set (case sig of [] \<Rightarrow> []
                | d # ds' \<Rightarrow> d # (if ds' = [] then [] else CHR ''.'' # ds'))
           \<subseteq> number_chars"
    using sig by (cases sig) (auto simp add: number_chars_def)
  have e: "set ''e+'' \<subseteq> number_chars" by (simp add: number_chars_def)
  show ?thesis
    using ds m e ex
    by (simp add: toString_pos_def Let_def flip: ds_def sig_def)
qed

lemma toString_pos_has_digit: "\<exists>c\<in>set (toString_pos x). c \<in> digit_chars"
proof -
  define ds where "ds = digits (shortest x (length (digits x)))"
  have 1: "\<exists>c\<in>set ds. c \<in> digit_chars"
    unfolding ds_def by (rule digits_has_digit)
  have 2: "\<exists>c\<in>set (digits (int (length ds) - 1)). c \<in> digit_chars"
    by (rule digits_has_digit)
  show ?thesis
    using 1 2 by (auto simp add: toString_pos_def Let_def simp flip: ds_def)
qed

lemma Number_toString_chars: "set (Number_toString x) \<subseteq> number_chars"
proof -
  have "CHR ''-'' \<in> number_chars" "CHR ''0'' \<in> number_chars"
    by (simp_all add: number_chars_def digit_chars_def)
  then show ?thesis
    using toString_pos_chars [of x] toString_pos_chars [of "- x"]
    by (simp add: Number_toString_def)
qed

lemma Number_toString_has_digit: "\<exists>c\<in>set (Number_toString x). c \<in> digit_chars"
proof -
  have "CHR ''0'' \<in> digit_chars" by (simp add: digit_chars_def)
  then show ?thesis
    using toString_pos_has_digit [of x] toString_pos_has_digit [of "- x"]
    by (auto simp add: Number_toString_def)
qed

lemma padStart_chars: "set (padStart n c s) \<subseteq> insert c (set s)"
  by (auto simp add: padStart_def)

lemma padStart_keeps: "set s \<subseteq> set (padStart n c s)"
  by (auto simp add: padStart_def)

lemma padStart_length: "length (padStart n c s) = max n (length s)"
  by (simp add: padStart_def)

section \<open>Time stamps\<close>

lemma rat_floor_div_60:
  fixes t :: rat
  shows "\<lfloor>t / 60\<rfloor> = \<lfloor>t\<rfloor> div 60"
proof (rule floor_unique)
  define k where "k = \<lfloor>t\<rfloor>"
  have k: "of_int k \<le> t" "t < of_int k + 1"
    using floor_correct [of t] by (simp_all add: k_def)
  have d: "k = 60 * (k div 60) + k mod 60" by simp
  have r: "0 \<le> k mod 60" "k mod 60 < 60" by simp_all
  have lo: "60 * (k div 60) \<le> k" using d r by linarith
  have hi: "k + 1 \<le> 60 * (k div 60) + 60" using d r by linarith
  have "(of_int (60 * (k div 60)) :: rat) \<le> of_int k"
    using lo by (simp only: of_int_le_iff)
  then have "60 * (of_int (k div 60) :: rat) \<le> t" using k by simp
  then show "of_int (k div 60) \<le> t / 60" by simp
  have "(of_int (k + 1) :: rat) \<le> of_int (60 * (k div 60) + 60)"
    using hi by (simp only: of_int_le_iff)
  then have "t < 60 * (of_int (k div 60) :: rat) + 60" using k by simp
  then show "t / 60 < of_int (k div 60) + 1" by simp
qed

lemma js_rem_nonneg:
  fixes t :: rat
  assumes "0 \<le> t"
  shows "\<lfloor>js_rem t 60\<rfloor> = \<lfloor>t\<rfloor> mod 60"
proof -
  have "js_rem t 60 = t - 60 * of_int (\<lfloor>t\<rfloor> div 60)"
    using assms by (simp add: js_rem_def rat_floor_div_60)
  also have "\<dots> = t - of_int (60 * (\<lfloor>t\<rfloor> div 60))"
    by simp
  finally have "\<lfloor>js_rem t 60\<rfloor> = \<lfloor>t\<rfloor> - 60 * (\<lfloor>t\<rfloor> div 60)"
    by (simp only: floor_diff_of_int)
  then show ?thesis
    by (simp add: minus_mult_div_eq_mod)
qed

text \<open>
  C5. For a time \<open>t \<ge> 0\<close>, \<^const>\<open>formatTime\<close> is the numeral of the minutes, a colon,
  and the numeral of the seconds, each padded with zeros on the left to two characters at
  least. The minutes are \<^verbatim>\<open>Math.floor(t / 60)\<close>, the floor of the binary64 quotient,
  printed as \<^verbatim>\<open>String\<close> prints a number; the seconds are \<open>\<lfloor>t mod 60\<rfloor> = \<lfloor>t\<rfloor> mod 60\<close>, below
  60, always two decimal digits. The minutes are not reduced modulo 60: there is no hour
  field. For every binary64 time below \<open>2 ^ 53\<close> the rounding of the quotient does not
  show: the minutes are exactly \<open>\<lfloor>t / 60\<rfloor>\<close> and both fields are plain decimal numerals,
  which read back as \<open>\<lfloor>t / 60\<rfloor>\<close> and \<open>\<lfloor>t\<rfloor> mod 60\<close>. So 65 gives 01:05 and 3661 gives
  61:01.
\<close>

theorem formatTime_minutes_seconds:
  fixes t :: rat
  assumes "0 \<le> t"
  shows "formatTime t =
           padStart 2 (CHR ''0'') (Number_toString \<lfloor>js_div t 60\<rfloor>) @ '':'' @
           padStart 2 (CHR ''0'') (digits (\<lfloor>t\<rfloor> mod 60))
         \<and> \<lfloor>js_rem t 60\<rfloor> = \<lfloor>t\<rfloor> mod 60
         \<and> \<lfloor>t\<rfloor> mod 60 = \<lfloor>t - 60 * of_int \<lfloor>t / 60\<rfloor>\<rfloor>
         \<and> \<lfloor>t\<rfloor> mod 60 < 60
         \<and> 0 \<le> \<lfloor>js_div t 60\<rfloor>
         \<and> 2 \<le> length (padStart 2 (CHR ''0'') (Number_toString \<lfloor>js_div t 60\<rfloor>))
         \<and> length (padStart 2 (CHR ''0'') (digits (\<lfloor>t\<rfloor> mod 60))) = 2
         \<and> (is_double t \<longrightarrow> t < 2 ^ 53 \<longrightarrow>
              \<lfloor>js_div t 60\<rfloor> = \<lfloor>t / 60\<rfloor> \<and>
              formatTime t =
                padStart 2 (CHR ''0'') (digits \<lfloor>t / 60\<rfloor>) @ '':'' @
                padStart 2 (CHR ''0'') (digits (\<lfloor>t\<rfloor> mod 60)))
         \<and> decimal_value (digits \<lfloor>t / 60\<rfloor>) = nat \<lfloor>t / 60\<rfloor>
         \<and> decimal_value (digits (\<lfloor>t\<rfloor> mod 60)) = nat (\<lfloor>t\<rfloor> mod 60)
         \<and> formatTime 65 = ''01:05''
         \<and> formatTime 3661 = ''61:01''"
proof -
  have m: "0 \<le> \<lfloor>t / 60\<rfloor>" using assms by simp
  have s: "\<lfloor>js_rem t 60\<rfloor> = \<lfloor>t\<rfloor> mod 60" using assms by (rule js_rem_nonneg)
  have s0: "0 \<le> \<lfloor>t\<rfloor> mod 60" by simp
  have s60: "\<lfloor>t\<rfloor> mod 60 < 60" by simp
  have "\<lfloor>t\<rfloor> mod 60 < 2 ^ 53" using s60 by simp
  with s0 have sd: "Number_toString (\<lfloor>t\<rfloor> mod 60) = digits (\<lfloor>t\<rfloor> mod 60)"
    by (rule Number_toString_safe)
  have 1: "formatTime t =
           padStart 2 (CHR ''0'') (Number_toString \<lfloor>js_div t 60\<rfloor>) @ '':'' @
           padStart 2 (CHR ''0'') (digits (\<lfloor>t\<rfloor> mod 60))"
    by (simp only: formatTime_def Let_def s sd)
  have 2: "\<lfloor>t\<rfloor> mod 60 = \<lfloor>t - 60 * of_int \<lfloor>t / 60\<rfloor>\<rfloor>"
    using assms s by (simp add: js_rem_def)
  have "0 \<le> round_double (t / 60)"
    by (rule round_double_nonneg) (use assms in simp)
  then have 3: "0 \<le> \<lfloor>js_div t 60\<rfloor>"
    by (simp add: js_div_def)
  have 4: "2 \<le> length (padStart 2 (CHR ''0'') (Number_toString \<lfloor>js_div t 60\<rfloor>))"
    by (simp add: padStart_length)
  have "length (digits (\<lfloor>t\<rfloor> mod 60)) \<le> 2"
    by (rule digits_length) simp_all
  then have 5: "length (padStart 2 (CHR ''0'') (digits (\<lfloor>t\<rfloor> mod 60))) = 2"
    by (simp add: padStart_length)
  have 6: "\<lfloor>js_div t 60\<rfloor> = \<lfloor>t / 60\<rfloor> \<and>
           formatTime t =
             padStart 2 (CHR ''0'') (digits \<lfloor>t / 60\<rfloor>) @ '':'' @
             padStart 2 (CHR ''0'') (digits (\<lfloor>t\<rfloor> mod 60))"
    if d: "is_double t" and b: "t < 2 ^ 53"
  proof -
    have q: "\<lfloor>js_div t 60\<rfloor> = \<lfloor>t / 60\<rfloor>"
      using d assms b by (rule js_div_60_floor)
    have "t / 60 \<le> t" using assms by simp
    then have "t / 60 < 2 ^ 53" using b by simp
    then have "t / 60 < of_int (2 ^ 53)" by simp
    then have "\<lfloor>t / 60\<rfloor> < 2 ^ 53" by (simp only: floor_less_iff)
    with m have "Number_toString \<lfloor>t / 60\<rfloor> = digits \<lfloor>t / 60\<rfloor>"
      by (rule Number_toString_safe)
    with 1 q show ?thesis by (simp only: simp_thms)
  qed
  have 7: "decimal_value (digits \<lfloor>t / 60\<rfloor>) = nat \<lfloor>t / 60\<rfloor>"
    using m by (rule decimal_value_digits)
  have 8: "decimal_value (digits (\<lfloor>t\<rfloor> mod 60)) = nat (\<lfloor>t\<rfloor> mod 60)"
    using s0 by (rule decimal_value_digits)
  have 9: "formatTime 65 = ''01:05''" by code_simp
  have 10: "formatTime 3661 = ''61:01''" by code_simp
  show ?thesis using 1 s 2 s60 3 4 5 6 7 8 9 10 by blast
qed

theorem formatTime_minutes_seconds_witness:
  "(0::rat) \<le> 7505 \<and> is_double 7505 \<and> (7505::rat) < 2 ^ 53
   \<and> formatTime 7505 = ''125:05''
   \<and> formatTime (119 / 2) = ''00:59''
   \<and> \<lfloor>js_div (10 ^ 21) 60\<rfloor> = 16666666666666665984
   \<and> formatTime (10 ^ 21) = ''16666666666666666000:40''"
proof -
  have a: "formatTime 7505 = ''125:05''" by code_simp
  have b: "formatTime (119 / 2) = ''00:59''" by code_simp
  have c: "\<lfloor>js_div (10 ^ 21) 60\<rfloor> = 16666666666666665984" by code_simp
  have d: "formatTime (10 ^ 21) = ''16666666666666666000:40''" by code_simp
  have e: "is_double 7505" by code_simp
  from formatTime_minutes_seconds [of 7505] a b c d e show ?thesis by simp
qed

section \<open>The speaker's name\<close>

text \<open>
  C2, as the specification has it, does not hold: an entry that is the empty string is
  not returned. The directory \<^verbatim>\<open>{"1": ""}\<close> has an entry under the key of speaker 0, and
  the name of speaker 0 is the fallback, not the empty string.
\<close>

theorem speakerName_empty_entry_counterexample:
  "(0::int) \<le> 0
   \<and> Number_toString \<lfloor>js_add (of_int 0) 1\<rfloor> = ''1''
   \<and> [''1'' \<mapsto> ''''] (Number_toString \<lfloor>js_add (of_int 0) 1\<rfloor>) = Some ''''
   \<and> speakerName [''1'' \<mapsto> ''''] 0 = ''Unknown Speaker 1''
   \<and> speakerName [''1'' \<mapsto> ''''] 0 \<noteq> ''''"
proof -
  have k: "Number_toString \<lfloor>js_add (of_int 0) 1\<rfloor> = ''1''" by code_simp
  have n: "speakerName [''1'' \<mapsto> ''''] 0 = ''Unknown Speaker 1''" by code_simp
  show ?thesis using k n by simp
qed

text \<open>
  C2, amended. For a speaker id \<open>i \<ge> 0\<close>, the key is \<^verbatim>\<open>String(i + 1)\<close>, the sum taken in
  binary64. An entry under the key that is not the empty string is returned as it is. An
  entry that is the empty string is falsy at line 178 and gives the fallback, as a missing
  entry does: \<^verbatim>\<open>Unknown Speaker\<close>, a space, and \<^verbatim>\<open>String(i + 1)\<close> again. These three cases
  are all there are, so a string is returned in each. While \<open>i + 1 < 2 ^ 53\<close> the sum is
  exact and the key is the decimal numeral of \<open>i + 1\<close>. With the directory
  \<^verbatim>\<open>{"1": "Alice"}\<close>, speaker 0 is Alice and speaker 1 is Unknown Speaker 2.
\<close>

theorem speakerName_resolution:
  assumes "0 \<le> i"
  shows "(meta (Number_toString \<lfloor>js_add (of_int i) 1\<rfloor>) = Some n \<longrightarrow> n \<noteq> [] \<longrightarrow>
            speakerName meta i = n)
   \<and> (meta (Number_toString \<lfloor>js_add (of_int i) 1\<rfloor>) = Some [] \<longrightarrow>
        speakerName meta i =
          ''Unknown Speaker '' @ Number_toString \<lfloor>js_add (of_int i) 1\<rfloor>)
   \<and> (meta (Number_toString \<lfloor>js_add (of_int i) 1\<rfloor>) = None \<longrightarrow>
        speakerName meta i =
          ''Unknown Speaker '' @ Number_toString \<lfloor>js_add (of_int i) 1\<rfloor>)
   \<and> (i + 1 < 2 ^ 53 \<longrightarrow>
        \<lfloor>js_add (of_int i) 1\<rfloor> = i + 1 \<and>
        Number_toString \<lfloor>js_add (of_int i) 1\<rfloor> = digits (i + 1) \<and>
        decimal_value (digits (i + 1)) = nat (i + 1))
   \<and> speakerName [''1'' \<mapsto> ''Alice''] 0 = ''Alice''
   \<and> speakerName [''1'' \<mapsto> ''Alice''] 1 = ''Unknown Speaker 2''"
proof -
  have 1: "\<lfloor>js_add (of_int i) 1\<rfloor> = i + 1 \<and>
           Number_toString \<lfloor>js_add (of_int i) 1\<rfloor> = digits (i + 1) \<and>
           decimal_value (digits (i + 1)) = nat (i + 1)"
    if b: "i + 1 < 2 ^ 53"
  proof -
    have a: "\<lfloor>js_add (of_int i) 1\<rfloor> = i + 1"
      using assms b by (rule js_add_1_safe)
    have p: "0 \<le> i + 1" using assms by simp
    from p b have "Number_toString (i + 1) = digits (i + 1)"
      by (rule Number_toString_safe)
    moreover from p have "decimal_value (digits (i + 1)) = nat (i + 1)"
      by (rule decimal_value_digits)
    ultimately show ?thesis using a by (simp only: simp_thms)
  qed
  have 2: "speakerName [''1'' \<mapsto> ''Alice''] 0 = ''Alice''" by code_simp
  have 3: "speakerName [''1'' \<mapsto> ''Alice''] 1 = ''Unknown Speaker 2''" by code_simp
  have 4: "(meta (Number_toString \<lfloor>js_add (of_int i) 1\<rfloor>) = Some n \<longrightarrow> n \<noteq> [] \<longrightarrow>
            speakerName meta i = n)"
    by (simp add: speakerName_def truthy_def Let_def)
  have 5: "(meta (Number_toString \<lfloor>js_add (of_int i) 1\<rfloor>) = Some [] \<longrightarrow>
        speakerName meta i =
          ''Unknown Speaker '' @ Number_toString \<lfloor>js_add (of_int i) 1\<rfloor>)"
    by (simp add: speakerName_def truthy_def Let_def)
  have 6: "(meta (Number_toString \<lfloor>js_add (of_int i) 1\<rfloor>) = None \<longrightarrow>
        speakerName meta i =
          ''Unknown Speaker '' @ Number_toString \<lfloor>js_add (of_int i) 1\<rfloor>)"
    by (simp add: speakerName_def truthy_def Let_def)
  show ?thesis using 1 2 3 4 5 6 by blast
qed

theorem speakerName_resolution_witness:
  "(0::int) \<le> 0 \<and> (0::int) \<le> 1 \<and> (0::int) \<le> 2 \<and> (0::int) \<le> 2 ^ 53
   \<and> [''1'' \<mapsto> ''Alice'', ''3'' \<mapsto> ''''] (Number_toString \<lfloor>js_add (of_int 0) 1\<rfloor>) = Some ''Alice''
   \<and> speakerName [''1'' \<mapsto> ''Alice'', ''3'' \<mapsto> ''''] 0 = ''Alice''
   \<and> [''1'' \<mapsto> ''Alice'', ''3'' \<mapsto> ''''] (Number_toString \<lfloor>js_add (of_int 2) 1\<rfloor>) = Some []
   \<and> speakerName [''1'' \<mapsto> ''Alice'', ''3'' \<mapsto> ''''] 2 = ''Unknown Speaker 3''
   \<and> [''1'' \<mapsto> ''Alice'', ''3'' \<mapsto> ''''] (Number_toString \<lfloor>js_add (of_int 1) 1\<rfloor>) = None
   \<and> speakerName [''1'' \<mapsto> ''Alice'', ''3'' \<mapsto> ''''] 1 = ''Unknown Speaker 2''
   \<and> (1::int) + 1 < 2 ^ 53
   \<and> Number_toString \<lfloor>js_add (of_int 1) 1\<rfloor> = digits (1 + 1)
   \<and> Number_toString \<lfloor>js_add (of_int (2 ^ 53)) 1\<rfloor> = ''9007199254740992''
   \<and> [''9007199254740993'' \<mapsto> ''Zed''] (Number_toString \<lfloor>js_add (of_int (2 ^ 53)) 1\<rfloor>) = None
   \<and> speakerName [''9007199254740993'' \<mapsto> ''Zed''] (2 ^ 53) =
       ''Unknown Speaker 9007199254740992''"
proof -
  let ?m = "[''1'' \<mapsto> ''Alice'', ''3'' \<mapsto> '''']"
  let ?z = "[''9007199254740993'' \<mapsto> ''Zed'']"
  have l0: "(0::int) \<le> 0" and l1: "(0::int) \<le> 1" and l2: "(0::int) \<le> 2"
    and lz: "(0::int) \<le> 2 ^ 53" and b1: "(1::int) + 1 < 2 ^ 53"
    by simp_all
  have ne: "''Alice'' \<noteq> []" by simp
  have k2: "Number_toString \<lfloor>js_add (of_int 1) 1\<rfloor> = ''2''" by code_simp
  have k3: "Number_toString \<lfloor>js_add (of_int 2) 1\<rfloor> = ''3''" by code_simp
  have kz: "Number_toString \<lfloor>js_add (of_int (2 ^ 53)) 1\<rfloor> = ''9007199254740992''"
    by code_simp
  have a: "?m (Number_toString \<lfloor>js_add (of_int 0) 1\<rfloor>) = Some ''Alice''"
    by code_simp
  have b: "?m (Number_toString \<lfloor>js_add (of_int 2) 1\<rfloor>) = Some []"
    by code_simp
  have c: "?m (Number_toString \<lfloor>js_add (of_int 1) 1\<rfloor>) = None"
    by code_simp
  have z: "?z (Number_toString \<lfloor>js_add (of_int (2 ^ 53)) 1\<rfloor>) = None"
    by code_simp
  from speakerName_resolution [OF l0, of ?m "''Alice''"] a ne
  have 1: "speakerName ?m 0 = ''Alice''" by blast
  from speakerName_resolution [OF l2, of ?m "[]"] b
  have "speakerName ?m 2 = ''Unknown Speaker '' @ Number_toString \<lfloor>js_add (of_int 2) 1\<rfloor>"
    by blast
  then have 2: "speakerName ?m 2 = ''Unknown Speaker 3''"
    by (simp only: k3 append.simps)
  from speakerName_resolution [OF l1, of ?m "[]"] c
  have "speakerName ?m 1 = ''Unknown Speaker '' @ Number_toString \<lfloor>js_add (of_int 1) 1\<rfloor>"
    by blast
  then have 3: "speakerName ?m 1 = ''Unknown Speaker 2''"
    by (simp only: k2 append.simps)
  from speakerName_resolution [OF l1, of ?m "[]"] b1
  have 4: "Number_toString \<lfloor>js_add (of_int 1) 1\<rfloor> = digits (1 + 1)"
    by blast
  from speakerName_resolution [OF lz, of ?z "[]"] z
  have "speakerName ?z (2 ^ 53) =
          ''Unknown Speaker '' @ Number_toString \<lfloor>js_add (of_int (2 ^ 53)) 1\<rfloor>"
    by blast
  then have 5: "speakerName ?z (2 ^ 53) = ''Unknown Speaker 9007199254740992''"
    by (simp only: kz append.simps)
  show ?thesis using l0 l1 l2 lz b1 a b c z 1 2 3 4 5 kz by blast
qed

section \<open>Attendee lines\<close>

text \<open>
  C10. The name of an attendee is the display name when that is a non-empty string, and the
  \<^verbatim>\<open>name\<close> field is then ignored; otherwise it is the \<^verbatim>\<open>name\<close> field. The line is
  "name email", the name alone or the email alone, by what is non-empty; an attendee with
  neither gives no line, and leaves the header as it was.
\<close>

theorem attendee_line_precedence:
  "(truthy (displayName a) \<longrightarrow>
      attendee_line a =
        Some (if truthy (email a) then the (displayName a) @ '' '' @ the (email a)
              else the (displayName a))
      \<and> attendee_line (a\<lparr>name := other\<rparr>) = attendee_line a)
   \<and> (\<not> truthy (displayName a) \<longrightarrow> truthy (name a) \<longrightarrow>
        attendee_line a =
          Some (if truthy (email a) then the (name a) @ '' '' @ the (email a)
                else the (name a)))
   \<and> (\<not> truthy (displayName a) \<longrightarrow> \<not> truthy (name a) \<longrightarrow> \<not> truthy (email a) \<longrightarrow>
        attendee_line a = None \<and> header_attendees (Some [a]) h = h)"
  by (auto simp add: attendee_line_def header_attendees_def truthy_def Let_def
      split: option.splits)

theorem attendee_line_precedence_witness:
  "truthy (Some ''Bo B.'')
   \<and> attendee_line \<lparr>displayName = Some ''Bo B.'', name = Some ''Bo'', email = Some ''b@x.com''\<rparr>
       = Some ''Bo B. b@x.com''
   \<and> \<not> truthy (Some '''') \<and> truthy (Some ''Bo'')
   \<and> attendee_line \<lparr>displayName = Some '''', name = Some ''Bo'', email = None\<rparr> = Some ''Bo''
   \<and> \<not> truthy None
   \<and> attendee_line \<lparr>displayName = None, name = Some '''', email = Some ''''\<rparr> = None
   \<and> header_attendees
        (Some [\<lparr>displayName = None, name = Some '''', email = Some ''''\<rparr>]) ''T'' = ''T''"
proof -
  let ?a = "\<lparr>displayName = Some ''Bo B.'', name = Some ''Bo'', email = Some ''b@x.com''\<rparr>"
  let ?b = "\<lparr>displayName = Some '''', name = Some ''Bo'', email = None\<rparr>"
  let ?c = "\<lparr>displayName = None, name = Some '''', email = Some ''''\<rparr>"
  have t: "truthy (Some ''Bo B.'')" "\<not> truthy (Some '''')" "truthy (Some ''Bo'')" "\<not> truthy None"
       "truthy (Some ''b@x.com'')"
    by (simp_all add: truthy_def)
  from attendee_line_precedence [of ?a] t
  have 1: "attendee_line ?a = Some ''Bo B. b@x.com''" by simp
  from attendee_line_precedence [of ?b] t
  have 2: "attendee_line ?b = Some ''Bo''" by simp
  from attendee_line_precedence [of ?c _ "''T''"] t
  have 3: "attendee_line ?c = None \<and> header_attendees (Some [?c]) ''T'' = ''T''" by simp
  show ?thesis using t 1 2 3 by simp
qed

section \<open>A whole transcript\<close>

text \<open>
  C4. The meeting "Standup" of 2024-01-01 with the attendee Bo, the speakers Bo and Amy
  and the three captions "Hi", "team" (speaker 0) and "Hey" (speaker 1), formatted with no
  meeting URL, is exactly the document of the specification.
\<close>

theorem formatTranscript_standup:
  "formatTranscript
     (Some \<lparr>captions = Some [\<lparr>speaker_id = 0, sentence = ''Hi'', time = 0\<rparr>,
                             \<lparr>speaker_id = 0, sentence = ''team'', time = 2\<rparr>,
                             \<lparr>speaker_id = 1, sentence = ''Hey'', time = 5\<rparr>],
            speakerMeta = Some [''1'' \<mapsto> ''Bo'', ''2'' \<mapsto> ''Amy''],
            title = Some ''Standup'',
            date = Some ''2024-01-01'',
            attendees = Some [\<lparr>displayName = None, name = Some ''Bo'', email = Some ''b@x.com''\<rparr>]\<rparr>)
     None
   = ''Standup | 2024-01-01\<newline>\<newline>Bo b@x.com\<newline>\<newline>00:00\<newline>Bo\<newline>Hi team\<newline>\<newline>00:05\<newline>Amy\<newline>Hey''"
  by code_simp

section \<open>Trimming\<close>

lemma trim_trimEnd: "trim s = trimEnd (dropWhile isWhiteSpace s)"
  by (simp add: trim_def trimEnd_def)

lemma trimEnd_Nil [simp]: "trimEnd [] = []"
  by (simp add: trimEnd_def)

lemma trimEnd_snoc: "trimEnd (s @ [c]) = (if isWhiteSpace c then trimEnd s else s @ [c])"
  by (simp add: trimEnd_def)

lemma trimEnd_append_ws: "\<forall>c\<in>set w. isWhiteSpace c \<Longrightarrow> trimEnd (s @ w) = trimEnd s"
  by (induction w rule: rev_induct) (simp_all add: trimEnd_snoc flip: append_assoc)

lemma trimEnd_id: "s = [] \<or> \<not> isWhiteSpace (last s) \<Longrightarrow> trimEnd s = s"
  by (cases s rule: rev_cases) (simp_all add: trimEnd_snoc)

lemma trimEnd_Cons: "\<not> isWhiteSpace c \<Longrightarrow> trimEnd (c # s) = c # trimEnd s"
  by (induction s rule: rev_induct)
     (simp_all add: trimEnd_snoc trimEnd_id flip: append_Cons)

lemma trimEnd_last: "trimEnd s \<noteq> [] \<Longrightarrow> \<not> isWhiteSpace (last (trimEnd s))"
  by (induction s rule: rev_induct) (auto simp add: trimEnd_snoc split: if_splits)

lemma trimEnd_hd: "trimEnd s \<noteq> [] \<Longrightarrow> hd (trimEnd s) = hd s"
  by (induction s rule: rev_induct) (auto simp add: trimEnd_snoc hd_append)

lemma trim_Nil [simp]: "trim [] = []"
  by (simp add: trim_def)

lemma trim_Cons_ws: "isWhiteSpace c \<Longrightarrow> trim (c # s) = trim s"
  by (simp add: trim_def)

lemma trim_Cons_keep: "\<not> isWhiteSpace c \<Longrightarrow> trim (c # s) = c # trimEnd s"
  by (simp add: trim_trimEnd trimEnd_Cons)

lemma trim_append_ws: "\<forall>c\<in>set w. isWhiteSpace c \<Longrightarrow> trim (s @ w) = trim s"
proof (induction s)
  case Nil
  then have "dropWhile isWhiteSpace w = []" by simp
  then show ?case by (simp only: trim_trimEnd append_Nil trimEnd_Nil trim_Nil dropWhile.simps)
next
  case (Cons a s)
  then show ?case
    by (cases "isWhiteSpace a") (simp_all add: trim_Cons_ws trim_Cons_keep trimEnd_append_ws)
qed

lemma trim_id:
  "s = [] \<or> (\<not> isWhiteSpace (hd s) \<and> \<not> isWhiteSpace (last s)) \<Longrightarrow> trim s = s"
  by (cases s) (auto simp add: trim_Cons_keep trimEnd_id split: if_splits)

lemma trim_ends:
  "trim s \<noteq> [] \<Longrightarrow> \<not> isWhiteSpace (hd (trim s)) \<and> \<not> isWhiteSpace (last (trim s))"
proof -
  assume ne: "trim s \<noteq> []"
  let ?d = "dropWhile isWhiteSpace s"
  have t: "trim s = trimEnd ?d" by (rule trim_trimEnd)
  have d: "?d \<noteq> []"
  proof
    assume "?d = []"
    then have "trimEnd ?d = []" by (simp only: trimEnd_Nil)
    with ne t show False by simp
  qed
  then have "\<not> isWhiteSpace (hd ?d)" by (rule hd_dropWhile)
  moreover have "hd (trim s) = hd ?d" using ne t by (simp add: trimEnd_hd)
  moreover have "\<not> isWhiteSpace (last (trim s))" using ne t by (simp add: trimEnd_last)
  ultimately show ?thesis by simp
qed

lemma trimEnd_keeps: "c \<in> set s \<Longrightarrow> \<not> isWhiteSpace c \<Longrightarrow> c \<in> set (trimEnd s)"
  by (induction s rule: rev_induct) (auto simp add: trimEnd_snoc)

lemma dropWhile_keeps: "c \<in> set s \<Longrightarrow> \<not> P c \<Longrightarrow> c \<in> set (dropWhile P s)"
  by (induction s) auto

lemma trim_keeps: "c \<in> set s \<Longrightarrow> \<not> isWhiteSpace c \<Longrightarrow> c \<in> set (trim s)"
  by (simp add: trim_trimEnd trimEnd_keeps dropWhile_keeps)

lemma newline_ws: "isWhiteSpace CHR ''\<newline>''"
  by (simp add: isWhiteSpace_def)

lemma space_ws: "isWhiteSpace CHR '' ''"
  by (simp add: isWhiteSpace_def)

section \<open>The loop only appends\<close>

lemma flush_prefix: "prefix b (flush b acc)"
  by (simp add: flush_def)

lemma speaker_change_prefix: "prefix (body st) (body (speaker_change meta st c))"
proof -
  have "prefix (body st) (flush (body st) (currentSpeakerTextAccumulator st))"
    by (rule flush_prefix)
  then obtain r where "flush (body st) (currentSpeakerTextAccumulator st) = body st @ r"
    by (auto simp add: prefix_def)
  then show ?thesis
    by (simp add: speaker_change_def Let_def)
qed

lemma caption_step_prefix: "prefix (body st) (body (caption_step meta st c))"
  by (simp add: caption_step_def Let_def speaker_change_prefix)

lemma caption_loop_prefix: "prefix (body st) (body (caption_loop meta st cs))"
proof (induction cs arbitrary: st)
  case Nil
  show ?case by simp
next
  case (Cons c cs)
  have "prefix (body st) (body (caption_step meta st c))"
    by (rule caption_step_prefix)
  also have "prefix \<dots> (body (caption_loop meta (caption_step meta st c) cs))"
    by (rule Cons.IH)
  finally show ?case by simp
qed

lemma caption_step_init:
  "caption_step meta loop_init c =
     \<lparr>body = formatTime (time c) @ ''\<newline>'' @ speakerName meta (speaker_id c) @ ''\<newline>'',
      lastSpeakerId = Some (speaker_id c),
      currentSpeakerTextAccumulator = sentence c\<rparr>"
  by (simp add: caption_step_def loop_init_def speaker_change_def flush_def accumulate_def Let_def)

lemma body_of_starts:
  "prefix (formatTime (time c) @ ''\<newline>'' @ speakerName meta (speaker_id c) @ ''\<newline>'')
     (body_of meta (c # cs))"
proof -
  let ?h = "formatTime (time c) @ ''\<newline>'' @ speakerName meta (speaker_id c) @ ''\<newline>''"
  let ?st = "caption_loop meta (caption_step meta loop_init c) cs"
  have "prefix (body (caption_step meta loop_init c)) (body ?st)"
    by (rule caption_loop_prefix)
  then have "prefix ?h (body ?st)"
    by (simp add: caption_step_init)
  also have "prefix (body ?st) (flush (body ?st) (currentSpeakerTextAccumulator ?st))"
    by (rule flush_prefix)
  finally show ?thesis
    by (simp add: body_of_def Let_def)
qed

text \<open>
  C6. The loop starts with \<^verbatim>\<open>lastSpeakerId = null\<close>, which no speaker id equals, 0
  included. The first caption, whatever its speaker, takes the speaker-change branch: the
  body starts with its time stamp and the name of its speaker, each on a line, and the
  last speaker is then that caption's.
\<close>

theorem first_caption_opens_block:
  "lastSpeakerId loop_init \<noteq> Some 0
   \<and> lastSpeakerId loop_init \<noteq> Some i
   \<and> caption_step meta loop_init c =
       \<lparr>body = formatTime (time c) @ ''\<newline>'' @ speakerName meta (speaker_id c) @ ''\<newline>'',
        lastSpeakerId = Some (speaker_id c),
        currentSpeakerTextAccumulator = sentence c\<rparr>
   \<and> prefix (formatTime (time c) @ ''\<newline>'' @ speakerName meta (speaker_id c) @ ''\<newline>'')
        (body_of meta (c # cs))"
  using body_of_starts [of c meta cs]
  by (simp add: caption_step_init) (simp add: loop_init_def)

theorem first_caption_opens_block_witness:
  "body_of [''1'' \<mapsto> ''Bo'']
     [\<lparr>speaker_id = 0, sentence = ''Hi'', time = 0\<rparr>, \<lparr>speaker_id = 0, sentence = ''all'', time = 1\<rparr>]
   = ''00:00\<newline>Bo\<newline>Hi all\<newline>''
   \<and> prefix ''00:00\<newline>Bo\<newline>''
       (body_of [''1'' \<mapsto> ''Bo'']
          [\<lparr>speaker_id = 0, sentence = ''Hi'', time = 0\<rparr>,
           \<lparr>speaker_id = 0, sentence = ''all'', time = 1\<rparr>])"
proof -
  let ?c = "\<lparr>speaker_id = 0, sentence = ''Hi'', time = 0\<rparr>"
  let ?d = "\<lparr>speaker_id = 0, sentence = ''all'', time = 1\<rparr>"
  have t: "formatTime 0 = ''00:00''" by code_simp
  have n: "speakerName [''1'' \<mapsto> ''Bo''] 0 = ''Bo''"
    by code_simp
  have b: "body_of [''1'' \<mapsto> ''Bo''] [?c, ?d] = ''00:00\<newline>Bo\<newline>Hi all\<newline>''"
    by code_simp
  from first_caption_opens_block [of 0 "[''1'' \<mapsto> ''Bo'']" ?c "[?d]"] t n b
  show ?thesis by simp
qed

section \<open>The characters of a time stamp\<close>

lemma digit_chars_not_ws: "c \<in> digit_chars \<Longrightarrow> \<not> isWhiteSpace c"
  by (auto simp add: digit_chars_def isWhiteSpace_def)

lemma stamp_chars_not_ws: "c \<in> stamp_chars \<Longrightarrow> \<not> isWhiteSpace c"
  using digit_chars_not_ws
  by (auto simp add: stamp_chars_def number_chars_def isWhiteSpace_def)

lemma zero_digit: "CHR ''0'' \<in> digit_chars"
  by (simp add: digit_chars_def)

lemma formatTime_chars: "set (formatTime t) \<subseteq> stamp_chars"
proof -
  have "set (padStart 2 (CHR ''0'') (Number_toString i)) \<subseteq> stamp_chars" for i
    using padStart_chars [of 2 "CHR ''0''" "Number_toString i"] Number_toString_chars [of i]
      zero_digit digit_chars_number
    by (auto simp add: stamp_chars_def)
  then show ?thesis
    by (simp add: formatTime_def Let_def) (simp add: stamp_chars_def)
qed

lemma formatTime_has_digit: "\<exists>c\<in>set (formatTime t). c \<in> digit_chars"
proof -
  obtain c where c: "c \<in> set (Number_toString \<lfloor>js_div t 60\<rfloor>)" "c \<in> digit_chars"
    using Number_toString_has_digit by blast
  then have "c \<in> set (padStart 2 (CHR ''0'') (Number_toString \<lfloor>js_div t 60\<rfloor>))"
    using padStart_keeps by blast
  then have "c \<in> set (formatTime t)"
    by (simp add: formatTime_def Let_def)
  with c show ?thesis by blast
qed

lemma formatTime_not_Nil: "formatTime t \<noteq> []"
  by (simp add: formatTime_def Let_def)

lemma formatTime_hd: "\<not> isWhiteSpace (hd (formatTime t))"
proof -
  have "hd (formatTime t) \<in> set (formatTime t)"
    using formatTime_not_Nil by (rule hd_in_set)
  then show ?thesis
    using formatTime_chars stamp_chars_not_ws by blast
qed

section \<open>The body of a non-empty transcript\<close>

lemma body_of_Nil: "body_of meta [] = []"
  by (simp add: body_of_def loop_init_def flush_def)

lemma trimEnd_stamp: "set s \<subseteq> stamp_chars \<Longrightarrow> trimEnd (s @ r) = s @ trimEnd r"
proof (induction s)
  case Nil
  show ?case by simp
next
  case (Cons x xs)
  then have "\<not> isWhiteSpace x" using stamp_chars_not_ws by simp
  with Cons show ?case by (simp add: trimEnd_Cons)
qed

lemma trim_stamp: "set s \<subseteq> stamp_chars \<Longrightarrow> s \<noteq> [] \<Longrightarrow> trim (s @ r) = s @ trimEnd r"
proof -
  assume s: "set s \<subseteq> stamp_chars" and "s \<noteq> []"
  then obtain a s' where f: "s = a # s'" by (cases s) auto
  with s have "\<not> isWhiteSpace a" using stamp_chars_not_ws by simp
  then have "trim (s @ r) = trimEnd (s @ r)"
    by (simp add: f trim_Cons_keep trimEnd_Cons)
  then show ?thesis using s by (simp add: trimEnd_stamp)
qed

lemma trim_body_of_Cons:
  "\<exists>r. trim (body_of meta (c # cs)) = formatTime (time c) @ r"
proof -
  obtain r where b: "body_of meta (c # cs) = formatTime (time c) @ r"
    using body_of_starts [of c meta cs] by (auto simp add: prefix_def)
  have "trim (formatTime (time c) @ r) = formatTime (time c) @ trimEnd r"
    using formatTime_chars formatTime_not_Nil by (rule trim_stamp)
  with b show ?thesis by simp
qed

lemma trim_body_of_not_Nil: "cs \<noteq> [] \<Longrightarrow> trim (body_of meta cs) \<noteq> []"
proof (cases cs)
  case Nil
  assume "cs \<noteq> []"
  with Nil show ?thesis by simp
next
  case (Cons c cs')
  obtain r where "trim (body_of meta (c # cs')) = formatTime (time c) @ r"
    using trim_body_of_Cons by blast
  then show ?thesis using Cons formatTime_not_Nil by simp
qed

lemma formatTranscript_present:
  "captions note = Some cs \<Longrightarrow> speakerMeta note = Some meta \<Longrightarrow>
   formatTranscript (Some note) url =
     (if header_of note url \<noteq> []
      then trim (header_of note url @ ''\<newline>\<newline>'' @ trim (body_of meta cs))
      else trim (body_of meta cs))"
  by (simp add: formatTranscript_def Let_def)

lemma trim_header_blank: "trim (h @ ''\<newline>\<newline>'') = trim h"
  by (rule trim_append_ws) (simp add: newline_ws)

lemma trim_joined:
  assumes "h \<noteq> []" "\<not> isWhiteSpace (hd h)" "trim b \<noteq> []"
  shows "trim (h @ ''\<newline>\<newline>'' @ trim b) = h @ ''\<newline>\<newline>'' @ trim b"
proof (rule trim_id)
  have "\<not> isWhiteSpace (last (trim b))"
    using assms(3) trim_ends by blast
  then show "h @ ''\<newline>\<newline>'' @ trim b = [] \<or>
        \<not> isWhiteSpace (hd (h @ ''\<newline>\<newline>'' @ trim b)) \<and>
        \<not> isWhiteSpace (last (h @ ''\<newline>\<newline>'' @ trim b))"
    using assms by simp
qed

lemma trim_ws_prefix: "list_all isWhiteSpace w \<Longrightarrow> trim (w @ s) = trim s"
  by (induction w) (simp_all add: trim_Cons_ws)

lemma trim_trim: "trim (trim s) = trim s"
  by (rule trim_id) (use trim_ends in blast)

lemma trim_header_joined:
  assumes "\<not> list_all isWhiteSpace h" "trim b \<noteq> []"
  shows "trim (h @ ''\<newline>\<newline>'' @ trim b) = dropWhile isWhiteSpace h @ ''\<newline>\<newline>'' @ trim b"
proof -
  let ?d = "dropWhile isWhiteSpace h"
  obtain x where x: "x \<in> set h" "\<not> isWhiteSpace x"
    using assms(1) by (auto simp add: list_all_iff)
  then have d: "dropWhile isWhiteSpace (h @ ''\<newline>\<newline>'' @ trim b) = ?d @ ''\<newline>\<newline>'' @ trim b"
    by (rule dropWhile_append1)
  have "\<not> isWhiteSpace (last (trim b))"
    using assms(2) trim_ends by blast
  then have "\<not> isWhiteSpace (last (?d @ ''\<newline>\<newline>'' @ trim b))"
    using assms(2) by simp
  then have "trimEnd (?d @ ''\<newline>\<newline>'' @ trim b) = ?d @ ''\<newline>\<newline>'' @ trim b"
    by (intro trimEnd_id disjI2)
  with d show ?thesis
    by (simp only: trim_trimEnd)
qed

text \<open>
  C8, as the specification has it, does not hold of every header: the join at line 208
  trims the header with the body. With no captions and the title \<^verbatim>\<open>" T "\<close> the header
  is not empty and the output is \<^verbatim>\<open>"T"\<close>, not the header. With one caption and the
  title \<^verbatim>\<open>" "\<close> the header is not empty and the output is the body alone. With one
  caption and the title \<^verbatim>\<open>"T\n"\<close> two blank lines stand between header and body.
\<close>

theorem header_not_joined_counterexample:
  "header_of \<lparr>captions = Some [], speakerMeta = Some Map.empty, title = Some '' T '',
              date = None, attendees = None\<rparr> None = '' T ''
   \<and> formatTranscript
       (Some \<lparr>captions = Some [], speakerMeta = Some Map.empty, title = Some '' T '',
              date = None, attendees = None\<rparr>) None = ''T''
   \<and> header_of \<lparr>captions = Some [\<lparr>speaker_id = 0, sentence = ''Hi'', time = 0\<rparr>],
                speakerMeta = Some Map.empty, title = Some '' '',
                date = None, attendees = None\<rparr> None = '' ''
   \<and> formatTranscript
       (Some \<lparr>captions = Some [\<lparr>speaker_id = 0, sentence = ''Hi'', time = 0\<rparr>],
              speakerMeta = Some Map.empty, title = Some '' '',
              date = None, attendees = None\<rparr>) None
     = ''00:00\<newline>Unknown Speaker 1\<newline>Hi''
   \<and> trim (body_of Map.empty [\<lparr>speaker_id = 0, sentence = ''Hi'', time = 0\<rparr>])
     = ''00:00\<newline>Unknown Speaker 1\<newline>Hi''
   \<and> header_of \<lparr>captions = Some [\<lparr>speaker_id = 0, sentence = ''Hi'', time = 0\<rparr>],
                speakerMeta = Some Map.empty, title = Some ''T\<newline>'',
                date = None, attendees = None\<rparr> None = ''T\<newline>''
   \<and> formatTranscript
       (Some \<lparr>captions = Some [\<lparr>speaker_id = 0, sentence = ''Hi'', time = 0\<rparr>],
              speakerMeta = Some Map.empty, title = Some ''T\<newline>'',
              date = None, attendees = None\<rparr>) None
     = ''T\<newline>\<newline>\<newline>00:00\<newline>Unknown Speaker 1\<newline>Hi''"
proof -
  let ?c = "\<lparr>speaker_id = 0, sentence = ''Hi'', time = 0\<rparr>"
  let ?n1 = "\<lparr>captions = Some [], speakerMeta = Some Map.empty, title = Some '' T '',
              date = None, attendees = None\<rparr>"
  let ?n2 = "\<lparr>captions = Some [?c], speakerMeta = Some Map.empty, title = Some '' '',
              date = None, attendees = None\<rparr>"
  let ?n3 = "\<lparr>captions = Some [?c], speakerMeta = Some Map.empty, title = Some ''T\<newline>'',
              date = None, attendees = None\<rparr>"
  have h1: "header_of ?n1 None = '' T ''" by code_simp
  have h2: "header_of ?n2 None = '' ''" by code_simp
  have h3: "header_of ?n3 None = ''T\<newline>''" by code_simp
  have 1: "formatTranscript (Some ?n1) None = ''T''" by code_simp
  have 2: "formatTranscript (Some ?n2) None = ''00:00\<newline>Unknown Speaker 1\<newline>Hi''"
    by code_simp
  have 3: "formatTranscript (Some ?n3) None = ''T\<newline>\<newline>\<newline>00:00\<newline>Unknown Speaker 1\<newline>Hi''"
    by code_simp
  have b: "trim (body_of Map.empty [?c]) = ''00:00\<newline>Unknown Speaker 1\<newline>Hi''"
    by code_simp
  show ?thesis using h1 h2 h3 1 2 3 b by (simp only: simp_thms)
qed

text \<open>
  C8, amended. With both required fields present, the result is the header, a blank line
  and the trimmed body, the whole trimmed again; or the trimmed body alone when the header
  is empty. So the result never starts or ends with white space. With no captions the
  body is empty and the result is the trimmed header, nothing after it: the header itself
  when it neither starts nor ends with white space. With captions the trimmed body is not
  empty. Then a header holding a character that is not white space gives the header
  without its leading white space, the two line feeds and the trimmed body: the header
  itself before them when it does not start with white space. A header that is empty, or
  white space only, gives the trimmed body alone.
\<close>

theorem header_joined_to_body:
  assumes "captions note = Some cs" and "speakerMeta note = Some meta"
  shows "(cs = [] \<longrightarrow> formatTranscript (Some note) url = trim (header_of note url))
         \<and> (cs = [] \<longrightarrow> header_of note url \<noteq> [] \<longrightarrow>
              \<not> isWhiteSpace (hd (header_of note url)) \<longrightarrow>
              \<not> isWhiteSpace (last (header_of note url)) \<longrightarrow>
              formatTranscript (Some note) url = header_of note url)
         \<and> (formatTranscript (Some note) url \<noteq> [] \<longrightarrow>
              \<not> isWhiteSpace (hd (formatTranscript (Some note) url)) \<and>
              \<not> isWhiteSpace (last (formatTranscript (Some note) url)))
         \<and> (cs = [] \<longrightarrow> trim (body_of meta cs) = [])
         \<and> (cs \<noteq> [] \<longrightarrow> trim (body_of meta cs) \<noteq> [])
         \<and> (cs \<noteq> [] \<longrightarrow> \<not> list_all isWhiteSpace (header_of note url) \<longrightarrow>
              formatTranscript (Some note) url =
                dropWhile isWhiteSpace (header_of note url) @ ''\<newline>\<newline>'' @
                trim (body_of meta cs))
         \<and> (cs \<noteq> [] \<longrightarrow> header_of note url \<noteq> [] \<longrightarrow>
              \<not> isWhiteSpace (hd (header_of note url)) \<longrightarrow>
              formatTranscript (Some note) url =
                header_of note url @ ''\<newline>\<newline>'' @ trim (body_of meta cs))
         \<and> (cs \<noteq> [] \<longrightarrow> list_all isWhiteSpace (header_of note url) \<longrightarrow>
              formatTranscript (Some note) url = trim (body_of meta cs))
         \<and> (header_of note url = [] \<longrightarrow>
              formatTranscript (Some note) url = trim (body_of meta cs))"
proof -
  let ?h = "header_of note url"
  let ?b = "trim (body_of meta cs)"
  let ?out = "formatTranscript (Some note) url"
  have out: "?out = (if ?h \<noteq> [] then trim (?h @ ''\<newline>\<newline>'' @ ?b) else ?b)"
    using assms by (rule formatTranscript_present)
  have 1: "cs = [] \<longrightarrow> ?out = trim ?h"
    by (simp add: out body_of_Nil trim_header_blank)
  have 2: "cs = [] \<longrightarrow> ?h \<noteq> [] \<longrightarrow> \<not> isWhiteSpace (hd ?h) \<longrightarrow> \<not> isWhiteSpace (last ?h) \<longrightarrow>
           ?out = ?h"
    using 1 by (simp add: trim_id)
  have 3: "?out \<noteq> [] \<longrightarrow> \<not> isWhiteSpace (hd ?out) \<and> \<not> isWhiteSpace (last ?out)"
    unfolding out using trim_ends by (simp split: if_splits)
  have 4: "cs = [] \<longrightarrow> ?b = []"
    by (simp add: body_of_Nil)
  have 5: "cs \<noteq> [] \<longrightarrow> ?b \<noteq> []"
    using trim_body_of_not_Nil by blast
  have 6: "cs \<noteq> [] \<longrightarrow> \<not> list_all isWhiteSpace ?h \<longrightarrow>
           ?out = dropWhile isWhiteSpace ?h @ ''\<newline>\<newline>'' @ ?b"
  proof (intro impI)
    assume c: "cs \<noteq> []" and w: "\<not> list_all isWhiteSpace ?h"
    from w have "?h \<noteq> []" by auto
    then have "?out = trim (?h @ ''\<newline>\<newline>'' @ ?b)" by (simp add: out)
    also have "\<dots> = dropWhile isWhiteSpace ?h @ ''\<newline>\<newline>'' @ ?b"
      using w 5 c by (intro trim_header_joined) simp_all
    finally show "?out = dropWhile isWhiteSpace ?h @ ''\<newline>\<newline>'' @ ?b" .
  qed
  have 7: "cs \<noteq> [] \<longrightarrow> ?h \<noteq> [] \<longrightarrow> \<not> isWhiteSpace (hd ?h) \<longrightarrow>
           ?out = ?h @ ''\<newline>\<newline>'' @ ?b"
    using trim_joined [of ?h "body_of meta cs"] 5 by (simp add: out)
  have 8: "cs \<noteq> [] \<longrightarrow> list_all isWhiteSpace ?h \<longrightarrow> ?out = ?b"
  proof (intro impI)
    assume w: "list_all isWhiteSpace ?h"
    have "list_all isWhiteSpace (?h @ ''\<newline>\<newline>'')"
      using w by (simp add: newline_ws)
    then have "trim ((?h @ ''\<newline>\<newline>'') @ ?b) = trim ?b"
      by (rule trim_ws_prefix)
    then have "trim (?h @ ''\<newline>\<newline>'' @ ?b) = ?b"
      by (simp add: trim_trim)
    then show "?out = ?b" by (simp add: out)
  qed
  have 9: "?h = [] \<longrightarrow> ?out = ?b"
    by (simp add: out)
  show ?thesis using 1 2 3 4 5 6 7 8 9 by blast
qed

theorem header_joined_to_body_witness:
  "formatTranscript
     (Some \<lparr>captions = Some [], speakerMeta = Some Map.empty, title = Some ''Standup'',
            date = Some ''2024-01-01'', attendees = None\<rparr>) None
   = ''Standup | 2024-01-01''
   \<and> formatTranscript
       (Some \<lparr>captions = Some [], speakerMeta = Some Map.empty, title = Some '' T '',
              date = None, attendees = None\<rparr>) None
     = ''T''
   \<and> formatTranscript
       (Some \<lparr>captions = Some [\<lparr>speaker_id = 1, sentence = ''Hey'', time = 5\<rparr>],
              speakerMeta = Some [''2'' \<mapsto> ''Amy''], title = Some ''Standup'',
              date = None, attendees = None\<rparr>) None
     = ''Standup\<newline>\<newline>00:05\<newline>Amy\<newline>Hey''
   \<and> formatTranscript
       (Some \<lparr>captions = Some [\<lparr>speaker_id = 1, sentence = ''Hey'', time = 5\<rparr>],
              speakerMeta = Some [''2'' \<mapsto> ''Amy''], title = Some '' T\<newline>'',
              date = None, attendees = None\<rparr>) None
     = ''T\<newline>\<newline>\<newline>00:05\<newline>Amy\<newline>Hey''
   \<and> formatTranscript
       (Some \<lparr>captions = Some [\<lparr>speaker_id = 1, sentence = ''Hey'', time = 5\<rparr>],
              speakerMeta = Some [''2'' \<mapsto> ''Amy''], title = Some '' '',
              date = None, attendees = None\<rparr>) None
     = ''00:05\<newline>Amy\<newline>Hey''
   \<and> formatTranscript
       (Some \<lparr>captions = Some [\<lparr>speaker_id = 1, sentence = ''Hey'', time = 5\<rparr>],
              speakerMeta = Some [''2'' \<mapsto> ''Amy''], title = None,
              date = None, attendees = None\<rparr>) None
     = ''00:05\<newline>Amy\<newline>Hey''"
proof -
  let ?c = "\<lparr>speaker_id = 1, sentence = ''Hey'', time = 5\<rparr>"
  let ?m = "[''2'' \<mapsto> ''Amy'']"
  let ?n1 = "\<lparr>captions = Some [], speakerMeta = Some Map.empty, title = Some ''Standup'',
              date = Some ''2024-01-01'', attendees = None\<rparr>"
  let ?n2 = "\<lparr>captions = Some [?c], speakerMeta = Some ?m, title = Some ''Standup'',
              date = None, attendees = None\<rparr>"
  let ?n3 = "\<lparr>captions = Some [?c], speakerMeta = Some ?m, title = None,
              date = None, attendees = None\<rparr>"
  let ?n4 = "\<lparr>captions = Some [], speakerMeta = Some Map.empty, title = Some '' T '',
              date = None, attendees = None\<rparr>"
  let ?n5 = "\<lparr>captions = Some [?c], speakerMeta = Some ?m, title = Some '' T\<newline>'',
              date = None, attendees = None\<rparr>"
  let ?n6 = "\<lparr>captions = Some [?c], speakerMeta = Some ?m, title = Some '' '',
              date = None, attendees = None\<rparr>"
  have h1: "header_of ?n1 None = ''Standup | 2024-01-01''"
    by (simp add: header_of_def header_title_def header_url_def header_attendees_def truthy_def)
  have h2: "header_of ?n2 None = ''Standup''"
    by (simp add: header_of_def header_title_def header_url_def header_attendees_def truthy_def)
  have h3: "header_of ?n3 None = []"
    by (simp add: header_of_def header_title_def header_url_def header_attendees_def truthy_def)
  have h4: "header_of ?n4 None = '' T ''"
    by (simp add: header_of_def header_title_def header_url_def header_attendees_def truthy_def)
  have h5: "header_of ?n5 None = '' T\<newline>''"
    by (simp add: header_of_def header_title_def header_url_def header_attendees_def truthy_def)
  have h6: "header_of ?n6 None = '' ''"
    by (simp add: header_of_def header_title_def header_url_def header_attendees_def truthy_def)
  have w: "\<not> isWhiteSpace CHR ''S''" "\<not> isWhiteSpace CHR ''1''" "\<not> isWhiteSpace CHR ''T''"
    "isWhiteSpace CHR '' ''" "isWhiteSpace CHR ''\<newline>''"
    by (simp_all add: isWhiteSpace_def)
  have b: "trim (body_of ?m [?c]) = ''00:05\<newline>Amy\<newline>Hey''"
    by code_simp
  have t1: "trim ''Standup | 2024-01-01'' = ''Standup | 2024-01-01''"
    by code_simp
  have t4: "trim '' T '' = ''T''"
    by code_simp
  have 1: "formatTranscript (Some ?n1) None = ''Standup | 2024-01-01''"
    using header_joined_to_body [of ?n1 "[]" Map.empty None] h1 t1 by simp
  have 2: "formatTranscript (Some ?n2) None = ''Standup\<newline>\<newline>00:05\<newline>Amy\<newline>Hey''"
    using header_joined_to_body [of ?n2 "[?c]" ?m None] h2 w b by simp
  have 3: "formatTranscript (Some ?n3) None = ''00:05\<newline>Amy\<newline>Hey''"
    using header_joined_to_body [of ?n3 "[?c]" ?m None] h3 b by simp
  have 4: "formatTranscript (Some ?n4) None = ''T''"
    using header_joined_to_body [of ?n4 "[]" Map.empty None] h4 t4 by simp
  have 5: "formatTranscript (Some ?n5) None = ''T\<newline>\<newline>\<newline>00:05\<newline>Amy\<newline>Hey''"
    using header_joined_to_body [of ?n5 "[?c]" ?m None] h5 w b by simp
  have 6: "formatTranscript (Some ?n6) None = ''00:05\<newline>Amy\<newline>Hey''"
    using header_joined_to_body [of ?n6 "[?c]" ?m None] h6 w b by simp
  show ?thesis using 1 2 3 4 5 6 by simp
qed

section \<open>Sentences that are empty\<close>

lemma caption_step_same:
  "lastSpeakerId st = Some (speaker_id c) \<Longrightarrow> currentSpeakerTextAccumulator st \<noteq> [] \<Longrightarrow>
   caption_step meta st c =
     st\<lparr>currentSpeakerTextAccumulator :=
          currentSpeakerTextAccumulator st @ '' '' @ sentence c\<rparr>"
  by (simp add: caption_step_def accumulate_def)

lemma body_of_three:
  assumes "speaker_id c2 = speaker_id c1" "speaker_id c3 = speaker_id c1" "sentence c1 \<noteq> []"
  shows "body_of meta [c1, c2, c3] =
           formatTime (time c1) @ ''\<newline>'' @ speakerName meta (speaker_id c1) @ ''\<newline>'' @
           trim (sentence c1 @ '' '' @ sentence c2 @ '' '' @ sentence c3) @ ''\<newline>''"
  using assms
  by (simp add: body_of_def caption_step_init caption_step_same flush_def)

text \<open>
  C9. A caption of the speaker of the current run is accumulated whatever its sentence,
  empty and blank ones included: when the accumulator is not empty, a space and the
  sentence are appended to it. So in a run of three captions whose first sentence is not
  empty, the text line is the three sentences with one space between neighbours, trimmed;
  when the first does not start and the third does not end with white space, that line
  is not changed by the trimming, and an empty second sentence leaves two spaces between
  the first and the third.
\<close>

theorem empty_sentence_is_accumulated:
  "(lastSpeakerId st = Some (speaker_id c) \<longrightarrow> currentSpeakerTextAccumulator st \<noteq> [] \<longrightarrow>
      caption_step meta st c =
        st\<lparr>currentSpeakerTextAccumulator :=
             currentSpeakerTextAccumulator st @ '' '' @ sentence c\<rparr>)
   \<and> (speaker_id c2 = speaker_id c1 \<longrightarrow> speaker_id c3 = speaker_id c1 \<longrightarrow>
        sentence c1 \<noteq> [] \<longrightarrow>
        body_of meta [c1, c2, c3] =
          formatTime (time c1) @ ''\<newline>'' @ speakerName meta (speaker_id c1) @ ''\<newline>'' @
          trim (sentence c1 @ '' '' @ sentence c2 @ '' '' @ sentence c3) @ ''\<newline>'')
   \<and> (speaker_id c2 = speaker_id c1 \<longrightarrow> speaker_id c3 = speaker_id c1 \<longrightarrow>
        sentence c1 \<noteq> [] \<longrightarrow> \<not> isWhiteSpace (hd (sentence c1)) \<longrightarrow>
        sentence c3 \<noteq> [] \<longrightarrow> \<not> isWhiteSpace (last (sentence c3)) \<longrightarrow>
        body_of meta [c1, c2, c3] =
          formatTime (time c1) @ ''\<newline>'' @ speakerName meta (speaker_id c1) @ ''\<newline>'' @
          sentence c1 @ '' '' @ sentence c2 @ '' '' @ sentence c3 @ ''\<newline>'')
   \<and> (speaker_id c2 = speaker_id c1 \<longrightarrow> speaker_id c3 = speaker_id c1 \<longrightarrow>
        sentence c1 \<noteq> [] \<longrightarrow> \<not> isWhiteSpace (hd (sentence c1)) \<longrightarrow>
        sentence c3 \<noteq> [] \<longrightarrow> \<not> isWhiteSpace (last (sentence c3)) \<longrightarrow>
        sentence c2 = [] \<longrightarrow>
        body_of meta [c1, c2, c3] =
          formatTime (time c1) @ ''\<newline>'' @ speakerName meta (speaker_id c1) @ ''\<newline>'' @
          sentence c1 @ ''  '' @ sentence c3 @ ''\<newline>'')"
proof -
  let ?B = "\<lambda>x. formatTime (time c1) @ ''\<newline>'' @ speakerName meta (speaker_id c1) @ ''\<newline>'' @ x"
  let ?t = "sentence c1 @ '' '' @ sentence c2 @ '' '' @ sentence c3"
  have t: "trim ?t = ?t"
    if "sentence c1 \<noteq> []" "\<not> isWhiteSpace (hd (sentence c1))"
       "sentence c3 \<noteq> []" "\<not> isWhiteSpace (last (sentence c3))"
    using that by (intro trim_id) simp
  have 1: "lastSpeakerId st = Some (speaker_id c) \<longrightarrow> currentSpeakerTextAccumulator st \<noteq> [] \<longrightarrow>
      caption_step meta st c =
        st\<lparr>currentSpeakerTextAccumulator :=
             currentSpeakerTextAccumulator st @ '' '' @ sentence c\<rparr>"
    by (simp add: caption_step_same)
  have 2: "speaker_id c2 = speaker_id c1 \<longrightarrow> speaker_id c3 = speaker_id c1 \<longrightarrow>
        sentence c1 \<noteq> [] \<longrightarrow> body_of meta [c1, c2, c3] = ?B (trim ?t @ ''\<newline>'')"
    by (simp add: body_of_three)
  have 3: "speaker_id c2 = speaker_id c1 \<longrightarrow> speaker_id c3 = speaker_id c1 \<longrightarrow>
        sentence c1 \<noteq> [] \<longrightarrow> \<not> isWhiteSpace (hd (sentence c1)) \<longrightarrow>
        sentence c3 \<noteq> [] \<longrightarrow> \<not> isWhiteSpace (last (sentence c3)) \<longrightarrow>
        body_of meta [c1, c2, c3] =
          ?B (sentence c1 @ '' '' @ sentence c2 @ '' '' @ sentence c3 @ ''\<newline>'')"
  proof (intro impI)
    assume a: "speaker_id c2 = speaker_id c1" "speaker_id c3 = speaker_id c1"
      "sentence c1 \<noteq> []" "\<not> isWhiteSpace (hd (sentence c1))"
      "sentence c3 \<noteq> []" "\<not> isWhiteSpace (last (sentence c3))"
    from 2 a have "body_of meta [c1, c2, c3] = ?B (trim ?t @ ''\<newline>'')" by blast
    also have "trim ?t = ?t" using a by (intro t)
    finally show "body_of meta [c1, c2, c3] =
          ?B (sentence c1 @ '' '' @ sentence c2 @ '' '' @ sentence c3 @ ''\<newline>'')"
      by simp
  qed
  have 4: "speaker_id c2 = speaker_id c1 \<longrightarrow> speaker_id c3 = speaker_id c1 \<longrightarrow>
        sentence c1 \<noteq> [] \<longrightarrow> \<not> isWhiteSpace (hd (sentence c1)) \<longrightarrow>
        sentence c3 \<noteq> [] \<longrightarrow> \<not> isWhiteSpace (last (sentence c3)) \<longrightarrow>
        sentence c2 = [] \<longrightarrow>
        body_of meta [c1, c2, c3] = ?B (sentence c1 @ ''  '' @ sentence c3 @ ''\<newline>'')"
  proof (intro impI)
    assume a: "speaker_id c2 = speaker_id c1" "speaker_id c3 = speaker_id c1"
      "sentence c1 \<noteq> []" "\<not> isWhiteSpace (hd (sentence c1))"
      "sentence c3 \<noteq> []" "\<not> isWhiteSpace (last (sentence c3))" and e: "sentence c2 = []"
    from 3 a have "body_of meta [c1, c2, c3] =
          ?B (sentence c1 @ '' '' @ sentence c2 @ '' '' @ sentence c3 @ ''\<newline>'')" by blast
    then show "body_of meta [c1, c2, c3] = ?B (sentence c1 @ ''  '' @ sentence c3 @ ''\<newline>'')"
      by (simp add: e)
  qed
  show ?thesis
    using 1 2 3 4 by blast
qed

theorem empty_sentence_is_accumulated_witness:
  "caption_step Map.empty
     \<lparr>body = ''00:00\<newline>Unknown Speaker 1\<newline>'', lastSpeakerId = Some 0,
      currentSpeakerTextAccumulator = ''a''\<rparr>
     \<lparr>speaker_id = 0, sentence = [], time = 1\<rparr>
   = \<lparr>body = ''00:00\<newline>Unknown Speaker 1\<newline>'', lastSpeakerId = Some 0,
      currentSpeakerTextAccumulator = ''a ''\<rparr>
   \<and> body_of Map.empty
        [\<lparr>speaker_id = 0, sentence = ''a'', time = 0\<rparr>,
         \<lparr>speaker_id = 0, sentence = [], time = 1\<rparr>,
         \<lparr>speaker_id = 0, sentence = ''b'', time = 2\<rparr>]
     = ''00:00\<newline>Unknown Speaker 1\<newline>a  b\<newline>''
   \<and> formatTranscript
        (Some \<lparr>captions = Some [\<lparr>speaker_id = 0, sentence = ''a'', time = 0\<rparr>,
                                \<lparr>speaker_id = 0, sentence = [], time = 1\<rparr>,
                                \<lparr>speaker_id = 0, sentence = ''b'', time = 2\<rparr>],
               speakerMeta = Some Map.empty, title = None, date = None, attendees = None\<rparr>)
        None
     = ''00:00\<newline>Unknown Speaker 1\<newline>a  b''"
proof -
  let ?st = "\<lparr>body = ''00:00\<newline>Unknown Speaker 1\<newline>'', lastSpeakerId = Some 0,
              currentSpeakerTextAccumulator = ''a''\<rparr>"
  let ?c1 = "\<lparr>speaker_id = 0, sentence = ''a'', time = 0\<rparr>"
  let ?c2 = "\<lparr>speaker_id = 0, sentence = [], time = 1\<rparr>"
  let ?c3 = "\<lparr>speaker_id = 0, sentence = ''b'', time = 2\<rparr>"
  have t: "formatTime 0 = ''00:00''" by code_simp
  have n: "speakerName Map.empty 0 = ''Unknown Speaker 1''"
    by code_simp
  have w: "\<not> isWhiteSpace CHR ''a''" "\<not> isWhiteSpace CHR ''b''"
    by (simp_all add: isWhiteSpace_def)
  have tr: "trim ''a  b'' = ''a  b''"
    by code_simp
  have 1: "caption_step Map.empty ?st ?c2 = ?st\<lparr>currentSpeakerTextAccumulator := ''a ''\<rparr>"
    using empty_sentence_is_accumulated [of ?st ?c2 Map.empty] by simp
  have 2: "body_of Map.empty [?c1, ?c2, ?c3] = ''00:00\<newline>Unknown Speaker 1\<newline>a  b\<newline>''"
    using empty_sentence_is_accumulated [of _ _ Map.empty ?c2 ?c1 ?c3] t n w tr by simp
  have 3: "formatTranscript
        (Some \<lparr>captions = Some [?c1, ?c2, ?c3],
               speakerMeta = Some Map.empty, title = None, date = None, attendees = None\<rparr>)
        None
     = ''00:00\<newline>Unknown Speaker 1\<newline>a  b''"
    by code_simp
  show ?thesis using 1 2 3 by simp
qed

section \<open>Missing data\<close>

lemma missing_data_no_digit: "c \<in> set missing_data \<Longrightarrow> c \<notin> digit_chars"
  by (auto simp add: missing_data_def digit_chars_def)

lemma formatTranscript_has_digit:
  assumes "captions note = Some cs" "speakerMeta note = Some meta" "cs \<noteq> []"
  shows "\<exists>c\<in>set (formatTranscript (Some note) url). c \<in> digit_chars"
proof -
  obtain c cs' where cs: "cs = c # cs'" using assms(3) by (cases cs) auto
  obtain r where b: "trim (body_of meta cs) = formatTime (time c) @ r"
    using trim_body_of_Cons cs by blast
  obtain d where d: "d \<in> set (formatTime (time c))" "d \<in> digit_chars"
    using formatTime_has_digit by blast
  then have w: "\<not> isWhiteSpace d" using digit_chars_not_ws by blast
  have in_b: "d \<in> set (trim (body_of meta cs))" using b d by simp
  then have "d \<in> set (trim (h @ ''\<newline>\<newline>'' @ trim (body_of meta cs)))" for h
    using w by (intro trim_keeps) simp_all
  then have "d \<in> set (formatTranscript (Some note) url)"
    using in_b assms(1,2) by (simp add: formatTranscript_present)
  with d show ?thesis by blast
qed

text \<open>
  C3, as stated, fails in its second half: a record with both fields present can carry
  the diagnostic sentence itself. With no captions and that sentence as the title, the
  header is the sentence and so is the result.
\<close>

theorem diagnostic_title_counterexample:
  "captions \<lparr>captions = Some [], speakerMeta = Some Map.empty,
             title = Some ''Error: Could not format transcript due to missing data.'',
             date = None, attendees = None\<rparr> = Some []
   \<and> speakerMeta \<lparr>captions = Some [], speakerMeta = Some Map.empty,
             title = Some ''Error: Could not format transcript due to missing data.'',
             date = None, attendees = None\<rparr> = Some Map.empty
   \<and> formatTranscript
        (Some \<lparr>captions = Some [], speakerMeta = Some Map.empty,
               title = Some ''Error: Could not format transcript due to missing data.'',
               date = None, attendees = None\<rparr>) None
     = ''Error: Could not format transcript due to missing data.''"
proof -
  have "formatTranscript
        (Some \<lparr>captions = Some [], speakerMeta = Some Map.empty,
               title = Some ''Error: Could not format transcript due to missing data.'',
               date = None, attendees = None\<rparr>) None
     = ''Error: Could not format transcript due to missing data.''"
    by code_simp
  then show ?thesis by simp
qed

text \<open>
  C3, amended. When the record, its captions or its speaker directory is absent, the
  result is the sentence "Error: Could not format transcript due to missing data."; the
  function returns a string in every case. When captions and directory are both present,
  the result is the formatted header and body, whatever is missing of title, date,
  attendees and meeting URL, and it is the diagnostic sentence in one case only: there
  are no captions and the header itself, trimmed, is that sentence. With a caption the
  result holds a digit of the first time stamp, and the sentence holds none.
\<close>

theorem missing_data_diagnostic:
  "formatTranscript None url = missing_data
   \<and> (captions note = None \<or> speakerMeta note = None \<longrightarrow>
        formatTranscript (Some note) url = missing_data)
   \<and> (captions note = Some cs \<longrightarrow> speakerMeta note = Some meta \<longrightarrow>
        formatTranscript (Some note) url =
          (if header_of note url \<noteq> []
           then trim (header_of note url @ ''\<newline>\<newline>'' @ trim (body_of meta cs))
           else trim (body_of meta cs)))
   \<and> (captions note = Some cs \<longrightarrow> speakerMeta note = Some meta \<longrightarrow>
        (formatTranscript (Some note) url = missing_data) =
        (cs = [] \<and> trim (header_of note url) = missing_data))
   \<and> missing_data = ''Error: Could not format transcript due to missing data.''"
proof -
  have 1: "formatTranscript None url = missing_data"
    by (simp add: formatTranscript_def)
  have 2: "captions note = None \<or> speakerMeta note = None \<longrightarrow>
        formatTranscript (Some note) url = missing_data"
    by (auto simp add: formatTranscript_def split: option.splits)
  have 3: "captions note = Some cs \<longrightarrow> speakerMeta note = Some meta \<longrightarrow>
        formatTranscript (Some note) url =
          (if header_of note url \<noteq> []
           then trim (header_of note url @ ''\<newline>\<newline>'' @ trim (body_of meta cs))
           else trim (body_of meta cs))"
    using formatTranscript_present by blast
  have 4: "(formatTranscript (Some note) url = missing_data) =
           (cs = [] \<and> trim (header_of note url) = missing_data)"
    if p: "captions note = Some cs" "speakerMeta note = Some meta"
  proof (cases "cs = []")
    case True
    have "formatTranscript (Some note) url = trim (header_of note url)"
      using p True by (simp add: formatTranscript_present body_of_Nil trim_header_blank)
    with True show ?thesis by simp
  next
    case False
    have "formatTranscript (Some note) url \<noteq> missing_data"
      using formatTranscript_has_digit [OF p False, of url] missing_data_no_digit by metis
    with False show ?thesis by simp
  qed
  have 5: "missing_data = ''Error: Could not format transcript due to missing data.''"
    by (rule missing_data_def)
  show ?thesis using 1 2 3 4 5 by blast
qed

theorem missing_data_diagnostic_witness:
  "formatTranscript
     (Some \<lparr>captions = None, speakerMeta = Some [''1'' \<mapsto> ''Bo''], title = Some ''T'',
            date = None, attendees = None\<rparr>) (Some ''https://x/view/1'')
   = ''Error: Could not format transcript due to missing data.''
   \<and> formatTranscript
     (Some \<lparr>captions = Some [], speakerMeta = None, title = Some ''T'',
            date = None, attendees = None\<rparr>) None
   = ''Error: Could not format transcript due to missing data.''
   \<and> formatTranscript
       (Some \<lparr>captions = Some [\<lparr>speaker_id = 0, sentence = ''Hi'', time = 3\<rparr>],
              speakerMeta = Some [''1'' \<mapsto> ''Bo''], title = None, date = None,
              attendees = None\<rparr>) None
     = ''00:03\<newline>Bo\<newline>Hi''
   \<and> formatTranscript
       (Some \<lparr>captions = Some [\<lparr>speaker_id = 0, sentence = ''Hi'', time = 3\<rparr>],
              speakerMeta = Some [''1'' \<mapsto> ''Bo''], title = None, date = None,
              attendees = None\<rparr>) None
     \<noteq> missing_data
   \<and> trim (header_of \<lparr>captions = Some [], speakerMeta = Some Map.empty,
                       title = Some ''Standup'', date = None, attendees = None\<rparr> None)
     = ''Standup''
   \<and> formatTranscript
       (Some \<lparr>captions = Some [], speakerMeta = Some Map.empty, title = Some ''Standup'',
              date = None, attendees = None\<rparr>) None
     \<noteq> missing_data
   \<and> trim (header_of \<lparr>captions = Some [], speakerMeta = Some Map.empty,
                       title = Some (''  '' @ missing_data), date = None,
                       attendees = None\<rparr> None)
     = missing_data
   \<and> formatTranscript
       (Some \<lparr>captions = Some [], speakerMeta = Some Map.empty,
              title = Some (''  '' @ missing_data), date = None, attendees = None\<rparr>) None
     = missing_data"
proof -
  let ?n1 = "\<lparr>captions = None, speakerMeta = Some [''1'' \<mapsto> ''Bo''], title = Some ''T'',
            date = None, attendees = None\<rparr>"
  let ?n2 = "\<lparr>captions = Some [], speakerMeta = None, title = Some ''T'',
            date = None, attendees = None\<rparr>"
  let ?c = "\<lparr>speaker_id = 0, sentence = ''Hi'', time = 3\<rparr>"
  let ?n3 = "\<lparr>captions = Some [?c], speakerMeta = Some [''1'' \<mapsto> ''Bo''], title = None,
            date = None, attendees = None\<rparr>"
  let ?n4 = "\<lparr>captions = Some [], speakerMeta = Some Map.empty, title = Some ''Standup'',
            date = None, attendees = None\<rparr>"
  let ?n5 = "\<lparr>captions = Some [], speakerMeta = Some Map.empty,
            title = Some (''  '' @ missing_data), date = None, attendees = None\<rparr>"
  have 1: "formatTranscript (Some ?n1) (Some ''https://x/view/1'') =
             ''Error: Could not format transcript due to missing data.''"
    using missing_data_diagnostic [of "Some ''https://x/view/1''" ?n1] by simp
  have 2: "formatTranscript (Some ?n2) None =
             ''Error: Could not format transcript due to missing data.''"
    using missing_data_diagnostic [of None ?n2] by simp
  have h: "header_of ?n3 None = []"
    by (simp add: header_of_def header_title_def header_url_def header_attendees_def truthy_def)
  have b: "trim (body_of [''1'' \<mapsto> ''Bo''] [?c]) = ''00:03\<newline>Bo\<newline>Hi''"
    by code_simp
  have 3: "formatTranscript (Some ?n3) None = ''00:03\<newline>Bo\<newline>Hi''"
    using missing_data_diagnostic [of None ?n3 "[?c]" "[''1'' \<mapsto> ''Bo'']"] h b by simp
  have p: "captions ?n3 = Some [?c]" "speakerMeta ?n3 = Some [''1'' \<mapsto> ''Bo'']" "[?c] \<noteq> []"
    by simp_all
  have 4: "formatTranscript (Some ?n3) None \<noteq> missing_data"
    using missing_data_diagnostic [of None ?n3 "[?c]" "[''1'' \<mapsto> ''Bo'']"] p by blast
  have h4: "trim (header_of ?n4 None) = ''Standup''" by code_simp
  have ne: "''Standup'' \<noteq> missing_data" by code_simp
  have p4: "captions ?n4 = Some []" "speakerMeta ?n4 = Some Map.empty"
    by simp_all
  have 5: "formatTranscript (Some ?n4) None \<noteq> missing_data"
    using missing_data_diagnostic [of None ?n4 "[]" Map.empty,
        THEN conjunct2, THEN conjunct2, THEN conjunct2, THEN conjunct1] p4 h4 ne
    by simp
  have h5: "trim (header_of ?n5 None) = missing_data" by code_simp
  have p5: "captions ?n5 = Some []" "speakerMeta ?n5 = Some Map.empty"
    by simp_all
  have 6: "formatTranscript (Some ?n5) None = missing_data"
    using missing_data_diagnostic [of None ?n5 "[]" Map.empty,
        THEN conjunct2, THEN conjunct2, THEN conjunct2, THEN conjunct1] p5 h5
    by simp
  show ?thesis using 1 2 3 4 h4 5 h5 6 by simp
qed

section \<open>The header\<close>

lemma attendee_line_not_empty: "attendee_line a = Some l \<Longrightarrow> l \<noteq> []"
  by (auto simp add: attendee_line_def truthy_def Let_def split: if_splits option.splits)

lemma truthy_attendee_line: "truthy (attendee_line a) \<longleftrightarrow> attendee_line a \<noteq> None"
  using attendee_line_not_empty [of a]
  by (cases "attendee_line a") (simp_all add: truthy_def)

lemma surviving_lines:
  "map the (filter truthy (map attendee_line as)) = List.map_filter attendee_line as"
  by (induction as) (simp_all add: List.map_filter_simps truthy_attendee_line split: option.splits)

lemma surviving_lines_not_empty: "l \<in> set (List.map_filter attendee_line as) \<Longrightarrow> l \<noteq> []"
  by (auto simp add: List.map_filter_def dest: attendee_line_not_empty)

lemma join_Cons_not_empty: "x \<noteq> [] \<Longrightarrow> join sep (x # xs) \<noteq> []"
  by (cases xs) simp_all

lemma join_empty_iff: "\<forall>l\<in>set ls. l \<noteq> [] \<Longrightarrow> join sep ls = [] \<longleftrightarrow> ls = []"
  by (cases ls) (simp_all add: join_Cons_not_empty)

lemma header_attendees_lines:
  "header_attendees atts h =
     (let ls = List.map_filter attendee_line (case atts of None \<Rightarrow> [] | Some as \<Rightarrow> as)
      in if ls = [] then h
         else if h = [] then join ''\<newline>'' ls
         else h @ ''\<newline>\<newline>'' @ join ''\<newline>'' ls)"
proof (cases atts)
  case None
  then show ?thesis by (simp add: header_attendees_def List.map_filter_simps)
next
  case (Some as)
  let ?ls = "List.map_filter attendee_line as"
  have e: "join ''\<newline>'' ?ls = [] \<longleftrightarrow> ?ls = []"
    by (rule join_empty_iff) (simp add: surviving_lines_not_empty)
  show ?thesis
  proof (cases as)
    case Nil
    with Some show ?thesis by (simp add: header_attendees_def List.map_filter_simps)
  next
    case (Cons a as')
    then have "0 < length as" by simp
    then show ?thesis
      using e by (simp add: Some header_attendees_def surviving_lines Let_def)
  qed
qed

lemma cleanUrl_split:
  "CHR ''?'' \<notin> set (takeWhile (\<lambda>c. c \<noteq> CHR ''?'') u)
   \<and> (\<exists>rest. u = takeWhile (\<lambda>c. c \<noteq> CHR ''?'') u @ rest \<and> (rest = [] \<or> hd rest = CHR ''?''))"
proof -
  let ?p = "\<lambda>c. c \<noteq> CHR ''?''"
  have 1: "CHR ''?'' \<notin> set (takeWhile ?p u)"
    using set_takeWhileD by fastforce
  have 2: "u = takeWhile ?p u @ dropWhile ?p u" by simp
  have 3: "dropWhile ?p u = [] \<or> hd (dropWhile ?p u) = CHR ''?''"
    using hd_dropWhile [of ?p u] by auto
  show ?thesis using 1 2 3 by blast
qed

text \<open>
  C7. A field is present when it is a non-empty string. The header is put together in
  this order: the title when present, followed by " | " and the date when title and
  date are both present (a date without a title gives nothing); then, when a meeting URL
  is present, the URL up to its first question mark, on a new line after what is there, or
  as the whole header when nothing is there; then the attendee lines. An attendee gives
  "name email" when both are present, the name alone, the email alone, or no line; the
  lines that remain are joined by line feeds and, when there is one at least, follow the
  header after a blank line, or are the header when it was empty.
\<close>

theorem header_construction:
  "header_title note =
     (if truthy (title note)
      then the (title note) @ (if truthy (date note) then '' | '' @ the (date note) else [])
      else [])
   \<and> (\<not> truthy url \<longrightarrow> header_url url h = h)
   \<and> (truthy url \<longrightarrow>
        header_url url h =
          (if h = [] then takeWhile (\<lambda>c. c \<noteq> CHR ''?'') (the url)
           else h @ ''\<newline>'' @ takeWhile (\<lambda>c. c \<noteq> CHR ''?'') (the url)))
   \<and> CHR ''?'' \<notin> set (takeWhile (\<lambda>c. c \<noteq> CHR ''?'') u)
   \<and> (\<exists>rest. u = takeWhile (\<lambda>c. c \<noteq> CHR ''?'') u @ rest \<and> (rest = [] \<or> hd rest = CHR ''?''))
   \<and> (nm = (if truthy (displayName a) then displayName a else name a) \<longrightarrow>
        attendee_line a =
          (if truthy nm \<and> truthy (email a) then Some (the nm @ '' '' @ the (email a))
           else if truthy nm then Some (the nm)
           else if truthy (email a) then Some (the (email a))
           else None))
   \<and> header_attendees atts h =
       (let ls = List.map_filter attendee_line (case atts of None \<Rightarrow> [] | Some as \<Rightarrow> as)
        in if ls = [] then h
           else if h = [] then join ''\<newline>'' ls
           else h @ ''\<newline>\<newline>'' @ join ''\<newline>'' ls)
   \<and> header_of note url =
       header_attendees (attendees note) (header_url url (header_title note))"
proof -
  have 1: "header_title note =
     (if truthy (title note)
      then the (title note) @ (if truthy (date note) then '' | '' @ the (date note) else [])
      else [])"
    by (simp add: header_title_def)
  have 2: "\<not> truthy url \<longrightarrow> header_url url h = h"
    by (simp add: header_url_def)
  have 3: "truthy url \<longrightarrow>
        header_url url h =
          (if h = [] then takeWhile (\<lambda>c. c \<noteq> CHR ''?'') (the url)
           else h @ ''\<newline>'' @ takeWhile (\<lambda>c. c \<noteq> CHR ''?'') (the url))"
    by (simp add: header_url_def Let_def)
  have 4: "nm = (if truthy (displayName a) then displayName a else name a) \<longrightarrow>
        attendee_line a =
          (if truthy nm \<and> truthy (email a) then Some (the nm @ '' '' @ the (email a))
           else if truthy nm then Some (the nm)
           else if truthy (email a) then Some (the (email a))
           else None)"
    by (auto simp add: attendee_line_def truthy_def Let_def split: option.splits)
  have 5: "header_of note url =
       header_attendees (attendees note) (header_url url (header_title note))"
    by (rule header_of_def)
  show ?thesis
    using 1 2 3 4 5 cleanUrl_split [of u] header_attendees_lines [of atts h] by blast
qed

theorem header_construction_witness:
  "truthy (Some ''https://app.fireflies.ai/view/abc?ref=x'')
   \<and> header_url (Some ''https://app.fireflies.ai/view/abc?ref=x'') ''Standup | 2024-01-01''
       = ''Standup | 2024-01-01\<newline>https://app.fireflies.ai/view/abc''
   \<and> header_url (Some ''https://app.fireflies.ai/view/abc?ref=x'') []
       = ''https://app.fireflies.ai/view/abc''
   \<and> \<not> truthy None
   \<and> header_url None ''Standup'' = ''Standup''
   \<and> Some ''Bo'' = (if truthy None then None else Some ''Bo'')
   \<and> attendee_line \<lparr>displayName = None, name = Some ''Bo'', email = Some ''b@x.com''\<rparr>
       = Some ''Bo b@x.com''
   \<and> header_of
        \<lparr>captions = Some [], speakerMeta = Some Map.empty, title = Some ''Standup'',
         date = Some ''2024-01-01'',
         attendees = Some [\<lparr>displayName = None, name = Some ''Bo'', email = Some ''b@x.com''\<rparr>,
                           \<lparr>displayName = Some ''Amy A.'', name = Some ''Amy'', email = None\<rparr>,
                           \<lparr>displayName = None, name = None, email = Some ''c@x.com''\<rparr>,
                           \<lparr>displayName = None, name = Some [], email = None\<rparr>]\<rparr>
        (Some ''https://app.fireflies.ai/view/abc?ref=x'')
       = ''Standup | 2024-01-01\<newline>https://app.fireflies.ai/view/abc\<newline>\<newline>Bo b@x.com\<newline>Amy A.\<newline>c@x.com''"
proof -
  let ?u = "''https://app.fireflies.ai/view/abc?ref=x''"
  let ?a1 = "\<lparr>displayName = None, name = Some ''Bo'', email = Some ''b@x.com''\<rparr>"
  let ?as = "[?a1,
              \<lparr>displayName = Some ''Amy A.'', name = Some ''Amy'', email = None\<rparr>,
              \<lparr>displayName = None, name = None, email = Some ''c@x.com''\<rparr>,
              \<lparr>displayName = None, name = Some [], email = None\<rparr>]"
  let ?n = "\<lparr>captions = Some [], speakerMeta = Some Map.empty, title = Some ''Standup'',
             date = Some ''2024-01-01'', attendees = Some ?as\<rparr>"
  have t: "truthy (Some ?u)" "\<not> truthy None" "truthy (Some ''Bo'')" "truthy (Some ''b@x.com'')"
      "truthy (Some ''Standup'')" "truthy (Some ''2024-01-01'')"
    by (simp_all add: truthy_def)
  have c: "takeWhile (\<lambda>c. c \<noteq> CHR ''?'') ?u = ''https://app.fireflies.ai/view/abc''"
    by simp
  let ?h1 = "''Standup | 2024-01-01''"
  let ?h2 = "''Standup | 2024-01-01\<newline>https://app.fireflies.ai/view/abc''"
  have 1: "header_url (Some ?u) ?h1 = ?h2"
    using header_construction [of ?n "Some ?u" ?h1 ?u None ?a1 None,
        THEN conjunct2, THEN conjunct2, THEN conjunct1] t c
    by simp
  have 2: "header_url (Some ?u) [] = ''https://app.fireflies.ai/view/abc''"
    using header_construction [of ?n "Some ?u" "[]" ?u None ?a1 None,
        THEN conjunct2, THEN conjunct2, THEN conjunct1] t c
    by simp
  have 3: "header_url None ''Standup'' = ''Standup''"
    using header_construction [of ?n None "''Standup''" ?u None ?a1 None,
        THEN conjunct2, THEN conjunct1] t
    by simp
  have 4: "attendee_line ?a1 = Some ''Bo b@x.com''"
    using header_construction [of ?n None "[]" ?u "Some ''Bo''" ?a1 None,
        THEN conjunct2, THEN conjunct2, THEN conjunct2, THEN conjunct2, THEN conjunct2,
        THEN conjunct1] t
    by simp
  have ls: "List.map_filter attendee_line ?as = [''Bo b@x.com'', ''Amy A.'', ''c@x.com'']"
    by code_simp
  have ht: "header_title ?n = ?h1"
    using header_construction [of ?n None "[]" ?u None ?a1 None, THEN conjunct1] t
    by simp
  have ha: "header_attendees (Some ?as) ?h2
      = ''Standup | 2024-01-01\<newline>https://app.fireflies.ai/view/abc\<newline>\<newline>Bo b@x.com\<newline>Amy A.\<newline>c@x.com''"
    using header_construction [of ?n None ?h2 ?u None ?a1 "Some ?as",
        THEN conjunct2, THEN conjunct2, THEN conjunct2, THEN conjunct2, THEN conjunct2,
        THEN conjunct2, THEN conjunct1]
    by (simp only: option.case ls Let_def) simp
  have 5: "header_of ?n (Some ?u)
      = ''Standup | 2024-01-01\<newline>https://app.fireflies.ai/view/abc\<newline>\<newline>Bo b@x.com\<newline>Amy A.\<newline>c@x.com''"
    using header_construction [of ?n "Some ?u" "[]" ?u None ?a1 None,
        THEN conjunct2, THEN conjunct2, THEN conjunct2, THEN conjunct2, THEN conjunct2,
        THEN conjunct2, THEN conjunct2]
    by (simp add: ht 1 ha)
  show ?thesis using t 1 2 3 4 5 by simp
qed

section \<open>Speaker runs\<close>

lemma spec_runs_concat: "concat (spec_runs cs) = cs"
  by (induction cs rule: spec_runs.induct) simp_all

lemma spec_runs_uniform:
  "r \<in> set (spec_runs cs) \<Longrightarrow> r \<noteq> [] \<and> (\<forall>c\<in>set r. speaker_id c = speaker_id (hd r))"
proof (induction cs rule: spec_runs.induct)
  case 1
  then show ?case by simp
next
  case (2 c cs)
  let ?same = "\<lambda>d. speaker_id d = speaker_id c"
  from "2.prems" have "r = c # takeWhile ?same cs \<or> r \<in> set (spec_runs (dropWhile ?same cs))"
    by (simp only: spec_runs.simps set_simps insert_iff)
  then show ?case
  proof
    assume r: "r = c # takeWhile ?same cs"
    show ?thesis
    proof (intro conjI ballI)
      show "r \<noteq> []" by (simp only: r list.distinct not_False_eq_True)
    next
      fix d
      assume "d \<in> set r"
      then have "d = c \<or> d \<in> set (takeWhile ?same cs)"
        by (simp only: r set_simps insert_iff)
      moreover have "hd r = c" by (simp only: r list.sel)
      moreover have "speaker_id d = speaker_id c" if "d \<in> set (takeWhile ?same cs)"
        using that by (rule set_takeWhileD [THEN conjunct2])
      ultimately show "speaker_id d = speaker_id (hd r)" by blast
    qed
  next
    assume "r \<in> set (spec_runs (dropWhile ?same cs))"
    then show ?thesis by (rule "2.IH")
  qed
qed

lemma spec_runs_Nil_iff: "spec_runs cs = [] \<longleftrightarrow> cs = []"
  by (cases cs) simp_all

lemma spec_runs_hd: "cs \<noteq> [] \<Longrightarrow> hd (hd (spec_runs cs)) = hd cs"
  by (cases cs) simp_all

lemma spec_runs_maximal: "distinct_adj (map (\<lambda>r. speaker_id (hd r)) (spec_runs cs))"
proof (induction cs rule: spec_runs.induct)
  case 1
  show ?case by simp
next
  case (2 c cs)
  let ?same = "\<lambda>d. speaker_id d = speaker_id c"
  let ?rest = "dropWhile ?same cs"
  let ?ids = "map (\<lambda>r. speaker_id (hd r)) (spec_runs ?rest)"
  have e: "map (\<lambda>r. speaker_id (hd r)) (spec_runs (c # cs)) = speaker_id c # ?ids"
    by simp
  show ?case
  proof (cases "?rest = []")
    case True
    then have "?ids = []" by (simp only: spec_runs.simps list.map)
    then show ?thesis by (simp only: e distinct_adj_singleton)
  next
    case False
    then have ne: "spec_runs ?rest \<noteq> []" by (simp only: spec_runs_Nil_iff not_False_eq_True)
    then have "hd ?ids = speaker_id (hd (hd (spec_runs ?rest)))" by (simp add: hd_map)
    also have "\<dots> = speaker_id (hd ?rest)" using spec_runs_hd [OF False] by (rule arg_cong)
    finally have "hd ?ids \<noteq> speaker_id c"
      using hd_dropWhile [OF False] by simp
    then have "speaker_id c \<noteq> hd ?ids" by (rule not_sym)
    with "2.IH" have "distinct_adj (speaker_id c # ?ids)"
      by (simp only: distinct_adj_Cons) blast
    then show ?thesis by (simp only: e)
  qed
qed

lemma join_Cons_concat: "join sep (x # xs) = x @ concat (map (\<lambda>y. sep @ y) xs)"
  by (induction xs arbitrary: x) simp_all

lemma accumulate_Nil: "accumulate [] s = s"
  by (simp add: accumulate_def)

lemma accumulate_keep: "a \<noteq> [] \<Longrightarrow> accumulate a s = a @ '' '' @ s"
  by (simp add: accumulate_def)

lemma accumulate_foldl_keep:
  "a \<noteq> [] \<Longrightarrow> foldl accumulate a ss = a @ concat (map (\<lambda>y. '' '' @ y) ss)"
  by (induction ss arbitrary: a) (simp_all add: accumulate_keep)

lemma accumulate_foldl_join:
  "foldl accumulate [] ss = join '' '' (dropWhile (\<lambda>s. s = []) ss)"
proof (induction ss)
  case Nil
  show ?case by simp
next
  case (Cons s ss)
  show ?case
  proof (cases "s = []")
    case True
    with Cons show ?thesis by (simp add: accumulate_Nil)
  next
    case False
    then show ?thesis
      by (simp add: accumulate_Nil accumulate_foldl_keep join_Cons_concat)
  qed
qed

lemma accumulate_foldl_empty_iff:
  "foldl accumulate [] ss = [] \<longleftrightarrow> list_all (\<lambda>s. s = []) ss"
proof (induction ss)
  case Nil
  show ?case by simp
next
  case (Cons s ss)
  show ?case
  proof (cases "s = []")
    case True
    with Cons show ?thesis by (simp add: accumulate_Nil)
  next
    case False
    then show ?thesis
      by (simp add: accumulate_Nil accumulate_foldl_keep)
  qed
qed

lemma trim_join_dropWhile:
  "trim (join '' '' (dropWhile (\<lambda>s. s = []) ss)) = trim (join '' '' ss)"
proof (induction ss)
  case Nil
  show ?case by simp
next
  case (Cons s ss)
  show ?case
  proof (cases "s = []")
    case True
    then have "trim (join '' '' (s # ss)) = trim (join '' '' ss)"
      by (cases ss) (simp_all add: trim_Cons_ws space_ws)
    with True Cons show ?thesis by simp
  next
    case False
    then show ?thesis by simp
  qed
qed

lemma flush_run:
  "flush b (foldl accumulate [] (map sentence r)) =
     b @ (if list_all (\<lambda>d. sentence d = []) r then []
          else trim (join '' '' (map sentence r)) @ ''\<newline>'')"
proof -
  have "list_all (\<lambda>s. s = []) (map sentence r) = list_all (\<lambda>d. sentence d = []) r"
    by (simp add: list_all_iff)
  then show ?thesis
    by (simp add: flush_def accumulate_foldl_empty_iff)
       (simp add: accumulate_foldl_join trim_join_dropWhile)
qed


section \<open>The loop, run by run\<close>

lemma caption_step_same_speaker:
  "lastSpeakerId st = Some (speaker_id c) \<Longrightarrow>
   caption_step meta st c =
     st\<lparr>currentSpeakerTextAccumulator :=
          accumulate (currentSpeakerTextAccumulator st) (sentence c)\<rparr>"
  by (simp add: caption_step_def)

lemma caption_step_change:
  "lastSpeakerId st \<noteq> Some (speaker_id c) \<Longrightarrow>
   caption_step meta st c =
     \<lparr>body =
        (if flush (body st) (currentSpeakerTextAccumulator st) \<noteq> []
         then flush (body st) (currentSpeakerTextAccumulator st) @ ''\<newline>''
         else []) @
        formatTime (time c) @ ''\<newline>'' @ speakerName meta (speaker_id c) @ ''\<newline>'',
      lastSpeakerId = Some (speaker_id c),
      currentSpeakerTextAccumulator = sentence c\<rparr>"
  by (auto simp add: caption_step_def speaker_change_def accumulate_Nil Let_def)

lemma caption_loop_same:
  "lastSpeakerId st = Some s \<Longrightarrow> list_all (\<lambda>d. speaker_id d = s) xs \<Longrightarrow>
   caption_loop meta st xs =
     st\<lparr>currentSpeakerTextAccumulator :=
          foldl accumulate (currentSpeakerTextAccumulator st) (map sentence xs)\<rparr>"
proof (induction xs arbitrary: st)
  case Nil
  show ?case by simp
next
  case (Cons x xs)
  from Cons.prems have x: "speaker_id x = s" and xs: "list_all (\<lambda>d. speaker_id d = s) xs"
    by simp_all
  let ?st = "st\<lparr>currentSpeakerTextAccumulator :=
              accumulate (currentSpeakerTextAccumulator st) (sentence x)\<rparr>"
  have "lastSpeakerId st = Some (speaker_id x)"
    using Cons.prems(1) x by simp
  then have step: "caption_step meta st x = ?st"
    by (rule caption_step_same_speaker)
  have "lastSpeakerId ?st = Some s"
    using Cons.prems(1) by simp
  then have "caption_loop meta ?st xs =
      ?st\<lparr>currentSpeakerTextAccumulator :=
            foldl accumulate (currentSpeakerTextAccumulator ?st) (map sentence xs)\<rparr>"
    using xs by (rule Cons.IH)
  then show ?case
    by (simp add: step)
qed

lemma caption_loop_append:
  "caption_loop meta st (xs @ ys) = caption_loop meta (caption_loop meta st xs) ys"
  by (induction xs arbitrary: st) simp_all

lemma takeWhile_all: "list_all P (takeWhile P xs)"
  by (induction xs) simp_all

lemma run_then_rest:
  assumes "lastSpeakerId st \<noteq> Some (speaker_id c)"
  shows "caption_loop meta st (c # cs) =
           caption_loop meta
             \<lparr>body =
                (if flush (body st) (currentSpeakerTextAccumulator st) \<noteq> []
                 then flush (body st) (currentSpeakerTextAccumulator st) @ ''\<newline>''
                 else []) @
                formatTime (time c) @ ''\<newline>'' @ speakerName meta (speaker_id c) @ ''\<newline>'',
              lastSpeakerId = Some (speaker_id c),
              currentSpeakerTextAccumulator =
                foldl accumulate []
                  (map sentence (c # takeWhile (\<lambda>d. speaker_id d = speaker_id c) cs))\<rparr>
             (dropWhile (\<lambda>d. speaker_id d = speaker_id c) cs)"
proof -
  let ?same = "\<lambda>d. speaker_id d = speaker_id c"
  let ?b = "(if flush (body st) (currentSpeakerTextAccumulator st) \<noteq> []
             then flush (body st) (currentSpeakerTextAccumulator st) @ ''\<newline>''
             else []) @
            formatTime (time c) @ ''\<newline>'' @ speakerName meta (speaker_id c) @ ''\<newline>''"
  let ?st0 = "\<lparr>body = ?b, lastSpeakerId = Some (speaker_id c),
               currentSpeakerTextAccumulator = sentence c\<rparr>"
  have step: "caption_step meta st c = ?st0"
    using assms by (rule caption_step_change)
  have l: "lastSpeakerId ?st0 = Some (speaker_id c)" by simp
  have same: "caption_loop meta ?st0 (takeWhile ?same cs) =
      ?st0\<lparr>currentSpeakerTextAccumulator :=
             foldl accumulate (currentSpeakerTextAccumulator ?st0)
               (map sentence (takeWhile ?same cs))\<rparr>"
    using l takeWhile_all by (rule caption_loop_same)
  have a: "caption_loop meta st (c # cs) = caption_loop meta ?st0 cs"
    by (simp only: caption_loop.simps step)
  have b: "caption_loop meta ?st0 cs =
      caption_loop meta (caption_loop meta ?st0 (takeWhile ?same cs)) (dropWhile ?same cs)"
    using caption_loop_append [of meta ?st0 "takeWhile ?same cs" "dropWhile ?same cs"]
    by (simp only: takeWhile_dropWhile_id)
  have c: "?st0\<lparr>currentSpeakerTextAccumulator :=
             foldl accumulate (currentSpeakerTextAccumulator ?st0)
               (map sentence (takeWhile ?same cs))\<rparr> =
           \<lparr>body = ?b, lastSpeakerId = Some (speaker_id c),
            currentSpeakerTextAccumulator =
              foldl accumulate [] (map sentence (c # takeWhile ?same cs))\<rparr>"
    by (simp add: accumulate_Nil)
  show ?thesis
    by (simp only: a b same c)
qed

lemma flush_spec_block:
  "flush (b @ formatTime (time c) @ ''\<newline>'' @ speakerName meta (speaker_id c) @ ''\<newline>'')
     (foldl accumulate [] (map sentence (c # cs))) =
   b @ spec_block meta (c # cs)"
  by (simp only: flush_run spec_block.simps append_assoc)

lemma spec_block_not_Nil: "spec_block meta (c # cs) \<noteq> []"
  using formatTime_not_Nil [of "time c"] by simp

lemma run_block:
  assumes change: "lastSpeakerId st \<noteq> Some (speaker_id c)"
  shows "\<exists>st1. caption_loop meta st (c # cs) =
                 caption_loop meta st1 (dropWhile (\<lambda>d. speaker_id d = speaker_id c) cs)
             \<and> lastSpeakerId st1 = Some (speaker_id c)
             \<and> flush (body st1) (currentSpeakerTextAccumulator st1) =
                 (if flush (body st) (currentSpeakerTextAccumulator st) \<noteq> []
                  then flush (body st) (currentSpeakerTextAccumulator st) @ ''\<newline>''
                  else []) @
                 spec_block meta (c # takeWhile (\<lambda>d. speaker_id d = speaker_id c) cs)"
proof -
  let ?same = "\<lambda>d. speaker_id d = speaker_id c"
  define sep where
    "sep = (if flush (body st) (currentSpeakerTextAccumulator st) \<noteq> []
            then flush (body st) (currentSpeakerTextAccumulator st) @ ''\<newline>''
            else [])"
  define st1 where
    "st1 = \<lparr>body = sep @ formatTime (time c) @ ''\<newline>'' @
                   speakerName meta (speaker_id c) @ ''\<newline>'',
            lastSpeakerId = Some (speaker_id c),
            currentSpeakerTextAccumulator =
              foldl accumulate [] (map sentence (c # takeWhile ?same cs))\<rparr>"
  have 1: "caption_loop meta st (c # cs) = caption_loop meta st1 (dropWhile ?same cs)"
    unfolding st1_def sep_def by (rule run_then_rest [OF change])
  have 2: "lastSpeakerId st1 = Some (speaker_id c)"
    by (simp add: st1_def)
  have b: "body st1 = sep @ formatTime (time c) @ ''\<newline>'' @
                   speakerName meta (speaker_id c) @ ''\<newline>''"
    by (simp add: st1_def)
  have a: "currentSpeakerTextAccumulator st1 =
             foldl accumulate [] (map sentence (c # takeWhile ?same cs))"
    by (simp add: st1_def)
  have 3: "flush (body st1) (currentSpeakerTextAccumulator st1) =
           sep @ spec_block meta (c # takeWhile ?same cs)"
    unfolding a b by (rule flush_spec_block)
  show ?thesis
    using 1 2 3 unfolding sep_def by blast
qed

lemma next_run_differs:
  assumes "lastSpeakerId st1 = Some (speaker_id c)"
  shows "dropWhile (\<lambda>d. speaker_id d = speaker_id c) cs = [] \<or>
         lastSpeakerId st1 \<noteq>
           Some (speaker_id (hd (dropWhile (\<lambda>d. speaker_id d = speaker_id c) cs)))"
proof (cases "dropWhile (\<lambda>d. speaker_id d = speaker_id c) cs = []")
  case True
  then show ?thesis by blast
next
  case False
  then have "speaker_id (hd (dropWhile (\<lambda>d. speaker_id d = speaker_id c) cs)) \<noteq> speaker_id c"
    by (rule hd_dropWhile)
  then show ?thesis using assms by simp
qed

lemma loop_blocks:
  "cs = [] \<or> lastSpeakerId st \<noteq> Some (speaker_id (hd cs)) \<Longrightarrow>
   flush (body st) (currentSpeakerTextAccumulator st) \<noteq> [] \<Longrightarrow>
   flush (body (caption_loop meta st cs))
     (currentSpeakerTextAccumulator (caption_loop meta st cs)) =
   flush (body st) (currentSpeakerTextAccumulator st) @
   concat (map (\<lambda>r. ''\<newline>'' @ spec_block meta r) (spec_runs cs))"
proof (induction cs arbitrary: st rule: spec_runs.induct)
  case 1
  show ?case by simp
next
  case (2 c cs)
  define tw where "tw = takeWhile (\<lambda>d. speaker_id d = speaker_id c) cs"
  define rest where "rest = dropWhile (\<lambda>d. speaker_id d = speaker_id c) cs"
  define B where "B = flush (body st) (currentSpeakerTextAccumulator st)"
  have sr: "spec_runs (c # cs) = (c # tw) # spec_runs rest"
    unfolding tw_def rest_def by (rule spec_runs.simps)
  from "2.prems"(1) have change: "lastSpeakerId st \<noteq> Some (speaker_id c)"
    by simp
  have B: "B \<noteq> []" unfolding B_def by (rule "2.prems"(2))
  obtain st1 where run: "caption_loop meta st (c # cs) = caption_loop meta st1 rest"
    and last: "lastSpeakerId st1 = Some (speaker_id c)"
    and f1: "flush (body st1) (currentSpeakerTextAccumulator st1) =
               (if B \<noteq> [] then B @ ''\<newline>'' else []) @ spec_block meta (c # tw)"
    unfolding tw_def rest_def B_def using run_block [OF change] by blast
  have f1': "flush (body st1) (currentSpeakerTextAccumulator st1) =
               B @ ''\<newline>'' @ spec_block meta (c # tw)"
    using f1 B by simp
  then have ne: "flush (body st1) (currentSpeakerTextAccumulator st1) \<noteq> []"
    using B by simp
  have nx: "rest = [] \<or> lastSpeakerId st1 \<noteq> Some (speaker_id (hd rest))"
    unfolding rest_def using last by (rule next_run_differs)
  have "flush (body (caption_loop meta st1 rest))
          (currentSpeakerTextAccumulator (caption_loop meta st1 rest)) =
        flush (body st1) (currentSpeakerTextAccumulator st1) @
        concat (map (\<lambda>r. ''\<newline>'' @ spec_block meta r) (spec_runs rest))"
    using nx ne unfolding rest_def by (rule "2.IH")
  then have "flush (body (caption_loop meta st (c # cs)))
          (currentSpeakerTextAccumulator (caption_loop meta st (c # cs))) =
        (B @ ''\<newline>'' @ spec_block meta (c # tw)) @
        concat (map (\<lambda>r. ''\<newline>'' @ spec_block meta r) (spec_runs rest))"
    by (simp only: run f1')
  also have "\<dots> = B @ concat (map (\<lambda>r. ''\<newline>'' @ spec_block meta r) (spec_runs (c # cs)))"
    by (simp only: sr list.map concat.simps append_assoc)
  finally show ?case
    by (simp only: B_def)
qed

lemma body_of_spec_body: "body_of meta cs = spec_body meta cs"
proof (cases cs)
  case Nil
  then show ?thesis by (simp add: body_of_Nil spec_body_def)
next
  case (Cons c cs')
  define tw where "tw = takeWhile (\<lambda>d. speaker_id d = speaker_id c) cs'"
  define rest where "rest = dropWhile (\<lambda>d. speaker_id d = speaker_id c) cs'"
  have sr: "spec_runs (c # cs') = (c # tw) # spec_runs rest"
    unfolding tw_def rest_def by (rule spec_runs.simps)
  have change: "lastSpeakerId loop_init \<noteq> Some (speaker_id c)"
    by (simp add: loop_init_def)
  have empty: "flush (body loop_init) (currentSpeakerTextAccumulator loop_init) = []"
    by (simp add: loop_init_def flush_def)
  obtain st1 where run: "caption_loop meta loop_init (c # cs') = caption_loop meta st1 rest"
    and last: "lastSpeakerId st1 = Some (speaker_id c)"
    and f1: "flush (body st1) (currentSpeakerTextAccumulator st1) =
               (if flush (body loop_init) (currentSpeakerTextAccumulator loop_init) \<noteq> []
                then flush (body loop_init) (currentSpeakerTextAccumulator loop_init) @ ''\<newline>''
                else []) @ spec_block meta (c # tw)"
    unfolding tw_def rest_def using run_block [OF change] by blast
  have f1': "flush (body st1) (currentSpeakerTextAccumulator st1) = spec_block meta (c # tw)"
    using f1 by (simp add: empty)
  have ne: "flush (body st1) (currentSpeakerTextAccumulator st1) \<noteq> []"
    unfolding f1' by (rule spec_block_not_Nil)
  have nx: "rest = [] \<or> lastSpeakerId st1 \<noteq> Some (speaker_id (hd rest))"
    unfolding rest_def using last by (rule next_run_differs)
  have "flush (body (caption_loop meta st1 rest))
          (currentSpeakerTextAccumulator (caption_loop meta st1 rest)) =
        flush (body st1) (currentSpeakerTextAccumulator st1) @
        concat (map (\<lambda>r. ''\<newline>'' @ spec_block meta r) (spec_runs rest))"
    using nx ne by (rule loop_blocks)
  then have "body_of meta (c # cs') =
      spec_block meta (c # tw) @
      concat (map (\<lambda>r. ''\<newline>'' @ spec_block meta r) (spec_runs rest))"
    by (simp only: body_of_def Let_def run f1')
  also have "\<dots> = join ''\<newline>'' (map (spec_block meta) (spec_runs (c # cs')))"
    by (simp only: sr list.map join_Cons_concat map_map o_def)
  finally show ?thesis
    by (simp only: Cons spec_body_def)
qed

lemma spec_block_shape:
  "r \<noteq> [] \<Longrightarrow>
   spec_block meta r =
     formatTime (time (hd r)) @ ''\<newline>'' @ speakerName meta (speaker_id (hd r)) @ ''\<newline>'' @
     (if list_all (\<lambda>d. sentence d = []) r then []
      else trim (join '' '' (map sentence r)) @ ''\<newline>'')"
  by (cases r) simp_all

text \<open>
  C1. The captions fall into their speaker runs: the runs, one after the other, are the
  caption sequence; a run is not empty and has one speaker id; neighbouring runs have
  different ids, so each run is maximal. The body built by the loop is one block per run,
  in the order of the runs, with one blank line between blocks. The block of a run is the
  time stamp of its first caption on a line, the name of its speaker on a line, and then
  one line of text: the sentences of the whole run joined by single spaces, trimmed (no
  text line when every sentence of the run is empty). The result of the formatter holds
  this body, trimmed, after the header.
\<close>

theorem one_block_per_speaker_run:
  "body_of meta cs = join ''\<newline>'' (map (spec_block meta) (spec_runs cs))
   \<and> concat (spec_runs cs) = cs
   \<and> (\<forall>r\<in>set (spec_runs cs). r \<noteq> [] \<and> (\<forall>c\<in>set r. speaker_id c = speaker_id (hd r)))
   \<and> distinct_adj (map (\<lambda>r. speaker_id (hd r)) (spec_runs cs))
   \<and> (\<forall>r\<in>set (spec_runs cs).
        spec_block meta r =
          formatTime (time (hd r)) @ ''\<newline>'' @
          speakerName meta (speaker_id (hd r)) @ ''\<newline>'' @
          (if list_all (\<lambda>d. sentence d = []) r then []
           else trim (join '' '' (map sentence r)) @ ''\<newline>''))
   \<and> (captions note = Some cs \<longrightarrow> speakerMeta note = Some meta \<longrightarrow>
        formatTranscript (Some note) url =
          (if header_of note url \<noteq> []
           then trim (header_of note url @ ''\<newline>\<newline>'' @
                      trim (join ''\<newline>'' (map (spec_block meta) (spec_runs cs))))
           else trim (join ''\<newline>'' (map (spec_block meta) (spec_runs cs)))))"
proof -
  have 1: "body_of meta cs = join ''\<newline>'' (map (spec_block meta) (spec_runs cs))"
    using body_of_spec_body [of meta cs] by (simp only: spec_body_def)
  have 2: "concat (spec_runs cs) = cs"
    by (rule spec_runs_concat)
  have 3: "\<forall>r\<in>set (spec_runs cs). r \<noteq> [] \<and> (\<forall>c\<in>set r. speaker_id c = speaker_id (hd r))"
    using spec_runs_uniform by blast
  have 4: "distinct_adj (map (\<lambda>r. speaker_id (hd r)) (spec_runs cs))"
    by (rule spec_runs_maximal)
  have 5: "\<forall>r\<in>set (spec_runs cs).
        spec_block meta r =
          formatTime (time (hd r)) @ ''\<newline>'' @
          speakerName meta (speaker_id (hd r)) @ ''\<newline>'' @
          (if list_all (\<lambda>d. sentence d = []) r then []
           else trim (join '' '' (map sentence r)) @ ''\<newline>'')"
  proof
    fix r
    assume "r \<in> set (spec_runs cs)"
    then have "r \<noteq> []" using spec_runs_uniform by blast
    then show "spec_block meta r =
          formatTime (time (hd r)) @ ''\<newline>'' @
          speakerName meta (speaker_id (hd r)) @ ''\<newline>'' @
          (if list_all (\<lambda>d. sentence d = []) r then []
           else trim (join '' '' (map sentence r)) @ ''\<newline>'')"
      by (rule spec_block_shape)
  qed
  have 6: "captions note = Some cs \<longrightarrow> speakerMeta note = Some meta \<longrightarrow>
        formatTranscript (Some note) url =
          (if header_of note url \<noteq> []
           then trim (header_of note url @ ''\<newline>\<newline>'' @
                      trim (join ''\<newline>'' (map (spec_block meta) (spec_runs cs))))
           else trim (join ''\<newline>'' (map (spec_block meta) (spec_runs cs))))"
    using formatTranscript_present [of "note" cs meta url] by (simp only: 1) blast
  show ?thesis
    using 1 2 3 4 5 6 by blast
qed

theorem one_block_per_speaker_run_witness:
  "spec_runs [\<lparr>speaker_id = 0, sentence = ''Hi'', time = 0\<rparr>,
              \<lparr>speaker_id = 0, sentence = ''team'', time = 2\<rparr>,
              \<lparr>speaker_id = 1, sentence = ''Hey'', time = 5\<rparr>,
              \<lparr>speaker_id = 0, sentence = ''Bye'', time = 65\<rparr>]
   = [[\<lparr>speaker_id = 0, sentence = ''Hi'', time = 0\<rparr>,
       \<lparr>speaker_id = 0, sentence = ''team'', time = 2\<rparr>],
      [\<lparr>speaker_id = 1, sentence = ''Hey'', time = 5\<rparr>],
      [\<lparr>speaker_id = 0, sentence = ''Bye'', time = 65\<rparr>]]
   \<and> body_of [''1'' \<mapsto> ''Bo'', ''2'' \<mapsto> ''Amy'']
        [\<lparr>speaker_id = 0, sentence = ''Hi'', time = 0\<rparr>,
         \<lparr>speaker_id = 0, sentence = ''team'', time = 2\<rparr>,
         \<lparr>speaker_id = 1, sentence = ''Hey'', time = 5\<rparr>,
         \<lparr>speaker_id = 0, sentence = ''Bye'', time = 65\<rparr>]
     = ''00:00\<newline>Bo\<newline>Hi team\<newline>\<newline>00:05\<newline>Amy\<newline>Hey\<newline>\<newline>01:05\<newline>Bo\<newline>Bye\<newline>''
   \<and> formatTranscript
        (Some \<lparr>captions = Some [\<lparr>speaker_id = 0, sentence = ''Hi'', time = 0\<rparr>,
                                \<lparr>speaker_id = 0, sentence = ''team'', time = 2\<rparr>,
                                \<lparr>speaker_id = 1, sentence = ''Hey'', time = 5\<rparr>,
                                \<lparr>speaker_id = 0, sentence = ''Bye'', time = 65\<rparr>],
               speakerMeta = Some [''1'' \<mapsto> ''Bo'', ''2'' \<mapsto> ''Amy''],
               title = None, date = None, attendees = None\<rparr>) None
     = ''00:00\<newline>Bo\<newline>Hi team\<newline>\<newline>00:05\<newline>Amy\<newline>Hey\<newline>\<newline>01:05\<newline>Bo\<newline>Bye''"
proof -
  let ?c1 = "\<lparr>speaker_id = 0, sentence = ''Hi'', time = 0\<rparr>"
  let ?c2 = "\<lparr>speaker_id = 0, sentence = ''team'', time = 2\<rparr>"
  let ?c3 = "\<lparr>speaker_id = 1, sentence = ''Hey'', time = 5\<rparr>"
  let ?c4 = "\<lparr>speaker_id = 0, sentence = ''Bye'', time = 65\<rparr>"
  let ?cs = "[?c1, ?c2, ?c3, ?c4]"
  let ?m = "[''1'' \<mapsto> ''Bo'', ''2'' \<mapsto> ''Amy'']"
  let ?n = "\<lparr>captions = Some ?cs, speakerMeta = Some ?m, title = None, date = None,
             attendees = None\<rparr>"
  let ?b = "''00:00\<newline>Bo\<newline>Hi team\<newline>\<newline>00:05\<newline>Amy\<newline>Hey\<newline>\<newline>01:05\<newline>Bo\<newline>Bye\<newline>''"
  have sr: "spec_runs ?cs = [[?c1, ?c2], [?c3], [?c4]]"
    by code_simp
  have sb: "join ''\<newline>'' (map (spec_block ?m) [[?c1, ?c2], [?c3], [?c4]]) = ?b"
    by code_simp
  have tb: "trim ?b = ''00:00\<newline>Bo\<newline>Hi team\<newline>\<newline>00:05\<newline>Amy\<newline>Hey\<newline>\<newline>01:05\<newline>Bo\<newline>Bye''"
    by code_simp
  have h: "header_of ?n None = []"
    by (simp add: header_of_def header_title_def header_url_def header_attendees_def truthy_def)
  have p: "captions ?n = Some ?cs" "speakerMeta ?n = Some ?m"
    by simp_all
  note inst = one_block_per_speaker_run [of ?m ?cs ?n None]
  have 1: "body_of ?m ?cs = ?b"
    using inst [THEN conjunct1] by (simp only: sr sb)
  have "formatTranscript (Some ?n) None =
          (if header_of ?n None \<noteq> []
           then trim (header_of ?n None @ ''\<newline>\<newline>'' @
                      trim (join ''\<newline>'' (map (spec_block ?m) (spec_runs ?cs))))
           else trim (join ''\<newline>'' (map (spec_block ?m) (spec_runs ?cs))))"
    using inst p by blast
  then have 2: "formatTranscript (Some ?n) None = trim ?b"
    by (simp only: h sr sb simp_thms if_False)
  show ?thesis
    using sr 1 2 tb by (simp only: simp_thms)
qed

end
